theory Spec2Isabelle
  imports
    Complex_Main
    "HOL-Library.Word"
    "HOL-Library.Multiset"
    "HOL-Library.Char_ord"
    "HOL-Library.List_Lexorder"
begin

section \<open>Data model of manifest.go\<close>

text \<open>
  Go strings are byte strings and are modelled as \<^typ>\<open>string\<close>; \<open>[]byte\<close> is a list
  of 8-bit words. With \<open>Char_ord\<close> and \<open>List_Lexorder\<close> the order \<open><\<close> on
  \<^typ>\<open>string\<close> is the bytewise lexicographic order, which is what Go's \<open><\<close> on
  strings computes.
\<close>

type_synonym byte = "8 word"

definition bytes_of :: "string \<Rightarrow> byte list" where
  "bytes_of s = map of_char s"

text \<open>The struct \<open>Input\<close> (manifest.go, lines 52-63).\<close>

record Input =
  i_Source :: string
  i_Store :: string
  i_Map :: string
  i_Mode :: string
  i_Name :: string

text \<open>The struct \<open>Code\<close> (lines 65-70) and \<open>StreamOutput\<close> (lines 72-75).\<close>

record Code =
  c_File :: string
  c_Native :: string
  c_Content :: "byte list"
  c_Entrypoint :: string

record StreamOutput =
  o_Type :: string

text \<open>The struct \<open>Module\<close> (lines 41-50).\<close>

record Module =
  m_Name :: string
  m_Kind :: string
  m_UpdatePolicy :: string
  m_ValueType :: string
  m_Code :: Code
  m_Inputs :: "Input list"
  m_Output :: StreamOutput

text \<open>
  Go errors are values made by \<open>errors.New\<close> and \<open>fmt.Errorf\<close>; one constructor stands
  for each message of the functions modelled here:
  \<^item> \<open>MissingUpdatePolicy\<close>: "missing 'output.updatePolicy' for kind 'store'";
  \<^item> \<open>MissingValueType\<close>: "missing 'output.valueType' for kind 'store'";
  \<^item> \<open>InvalidCombination\<close>: "invalid 'output.updatePolicy' and 'output.valueType'
    combination, use one of: ...";
  \<^item> \<open>InvalidMode n\<close>: "input n: 'mode' parameter must be one of: 'get', 'deltas'";
  \<^item> \<open>NotExactlyOne\<close>: "one, and only one of 'map', 'store' or 'source' must be
    specified";
  \<^item> \<open>InvalidInput\<close>: "invalid input" (of \<open>setInputsToProto\<close>).
\<close>

datatype error =
    MissingUpdatePolicy
  | MissingValueType
  | InvalidCombination
  | InvalidMode string
  | NotExactlyOne
  | InvalidInput

section \<open>validateStoreBuilder\<close>

text \<open>The literal table of lines 190-209, in the order of the source.\<close>

definition combinations :: "string list" where
  "combinations =
    [''max:bigint'', ''max:int64'', ''max:bigfloat'', ''max:float64'',
     ''min:bigint'', ''min:int64'', ''min:bigfloat'', ''min:float64'',
     ''sum:bigint'', ''sum:int64'', ''sum:bigfloat'', ''sum:float64'',
     ''replace:bytes'', ''replace:string'', ''replace:proto'',
     ''ignore:bytes'', ''ignore:string'', ''ignore:proto'']"

text \<open>\<open>fmt.Sprintf("%s:%s", a, b)\<close>.\<close>

definition sprintf_colon :: "string \<Rightarrow> string \<Rightarrow> string" where
  "sprintf_colon a b = a @ '':'' @ b"

text \<open>
  Lines 182-222. The loop over the table does not stop at the first match, it sets
  \<open>found\<close> and goes on; \<open>None\<close> is the \<open>nil\<close> error.
\<close>

definition validateStoreBuilder :: "Module \<Rightarrow> error option" where
  "validateStoreBuilder m =
    (if m_UpdatePolicy m = [] then Some MissingUpdatePolicy
     else if m_ValueType m = [] then Some MissingValueType
     else
       let found = foldl
             (\<lambda>found comb.
                if sprintf_colon (m_UpdatePolicy m) (m_ValueType m) = comb
                then True else found)
             False combinations
       in if \<not> found then Some InvalidCombination else None)"

section \<open>Input.parse\<close>

text \<open>
  Lines 160-180. The method mutates the input in place and returns an error; the model
  returns the input as the method leaves it together with the error (\<open>None\<close> is
  \<open>nil\<close>). On the invalid-mode path the name and the defaulted mode have already been
  written.
\<close>

definition parse :: "Input \<Rightarrow> Input \<times> error option" where
  "parse i =
    (if i_Map i \<noteq> [] \<and> i_Store i = [] \<and> i_Source i = [] then
       (i\<lparr>i_Name := ''map:'' @ i_Map i\<rparr>, None)
     else if i_Store i \<noteq> [] \<and> i_Map i = [] \<and> i_Source i = [] then
       let i1 = i\<lparr>i_Name := ''store:'' @ i_Store i\<rparr>;
           i2 = (if i_Mode i1 = [] then i1\<lparr>i_Mode := ''get''\<rparr> else i1)
       in if i_Mode i2 \<noteq> ''get'' \<and> i_Mode i2 \<noteq> ''deltas''
          then (i2, Some (InvalidMode (i_Name i2)))
          else (i2, None)
     else if i_Source i \<noteq> [] \<and> i_Map i = [] \<and> i_Store i = [] then
       (i\<lparr>i_Name := ''source:'' @ i_Source i\<rparr>, None)
     else (i, Some NotExactlyOne))"

text \<open>
  The legal pairs as the specification groups them: the policies \<open>max\<close>, \<open>min\<close>,
  \<open>sum\<close> with the numeric value types, and \<open>replace\<close>, \<open>ignore\<close> with the opaque ones.
\<close>

definition numeric_policies :: "string set" where
  "numeric_policies = {''max'', ''min'', ''sum''}"

definition numeric_types :: "string set" where
  "numeric_types = {''bigint'', ''int64'', ''bigfloat'', ''float64''}"

definition overwrite_policies :: "string set" where
  "overwrite_policies = {''replace'', ''ignore''}"

definition opaque_types :: "string set" where
  "opaque_types = {''bytes'', ''string'', ''proto''}"

definition legal_combination :: "string \<Rightarrow> string \<Rightarrow> bool" where
  "legal_combination p v \<longleftrightarrow>
     (p \<in> numeric_policies \<and> v \<in> numeric_types) \<or>
     (p \<in> overwrite_policies \<and> v \<in> opaque_types)"

definition legal_pairs :: "(string \<times> string) list" where
  "legal_pairs =
     List.product [''max'', ''min'', ''sum''] [''bigint'', ''int64'', ''bigfloat'', ''float64''] @
     List.product [''replace'', ''ignore''] [''bytes'', ''string'', ''proto'']"

text \<open>
  "Exactly one of the source, store and map fields is non-empty", counted over the three
  fields.
\<close>

definition exactly_one :: "Input \<Rightarrow> bool" where
  "exactly_one i \<longleftrightarrow> length (filter (\<lambda>s. s \<noteq> []) [i_Source i, i_Store i, i_Map i]) = 1"

section \<open>Module.setInputsToProto\<close>

text \<open>
  The messages of the generated package \<open>pbtransform\<close> that \<open>setInputsToProto\<close> builds.
  The enumeration \<open>InputStore_Mode\<close> has the values \<open>UNSET\<close>, \<open>GET\<close> and \<open>DELTAS\<close>;
  \<open>UNSET\<close> is its zero value, which is what \<open>var mode pbtransform.InputStore_Mode\<close>
  holds when no case of the switch assigns it.
\<close>

datatype InputStore_Mode = InputStore_UNSET | InputStore_GET | InputStore_DELTAS

text \<open>
  \<open>Input_Source t\<close> is \<open>InputSource{Type: t}\<close>, \<open>Input_Map n\<close> is
  \<open>InputMap{ModuleName: n}\<close>, and \<open>Input_Store n mode\<close> is
  \<open>InputStore{ModuleName: n, Mode: mode}\<close>.
\<close>

datatype pbInput =
    Input_Source string
  | Input_Map string
  | Input_Store string InputStore_Mode

record pbModule =
  pb_Name :: string
  pb_CodeIndex :: "32 word"
  pb_CodeEntrypoint :: string
  pb_Inputs :: "pbInput list"

text \<open>The switch of lines 376-383; no case matches means the zero value.\<close>

definition store_mode :: "string \<Rightarrow> InputStore_Mode" where
  "store_mode mode =
    (if mode = ''UNSET'' then InputStore_UNSET
     else if mode = ''GET'' then InputStore_GET
     else if mode = ''Delta'' then InputStore_DELTAS
     else InputStore_UNSET)"

text \<open>
  Lines 348-401: the loop over \<open>m.Inputs\<close>, appending to \<open>pbModule.Inputs\<close> in place.
  The tests are in the order of the source: source, then map, then store. On the error
  path the inputs appended so far stay in the message.
\<close>

fun setInputsToProto_loop :: "Module \<Rightarrow> Input list \<Rightarrow> pbModule \<Rightarrow> pbModule \<times> error option" where
  "setInputsToProto_loop m [] pbModule = (pbModule, None)"
| "setInputsToProto_loop m (input # rest) pbModule =
    (if i_Source input \<noteq> [] then
       setInputsToProto_loop m rest
         (pbModule\<lparr>pb_Inputs := pb_Inputs pbModule @ [Input_Source (i_Source input)]\<rparr>)
     else if i_Map input \<noteq> [] then
       setInputsToProto_loop m rest
         (pbModule\<lparr>pb_Inputs := pb_Inputs pbModule @ [Input_Map (i_Source input)]\<rparr>)
     else if i_Store input \<noteq> [] then
       setInputsToProto_loop m rest
         (pbModule\<lparr>pb_Inputs := pb_Inputs pbModule @
            [Input_Store (m_Name m) (store_mode (i_Mode input))]\<rparr>)
     else (pbModule, Some InvalidInput))"

definition setInputsToProto :: "Module \<Rightarrow> pbModule \<Rightarrow> pbModule \<times> error option" where
  "setInputsToProto m pbModule = setInputsToProto_loop m (m_Inputs m) pbModule"

text \<open>
  An input as \<open>parse\<close> leaves it on success: parsing it again succeeds and changes
  nothing (\<open>parsed_iff\<close> below shows that these are exactly the inputs that some
  successful call of \<open>parse\<close> returns). Then the message the conversion emits for such
  an input.
\<close>

definition parsed :: "Input \<Rightarrow> bool" where
  "parsed i \<longleftrightarrow> parse i = (i, None)"

definition emitted :: "Module \<Rightarrow> Input \<Rightarrow> pbInput" where
  "emitted m i =
    (if i_Store i \<noteq> [] then Input_Store (m_Name m) InputStore_UNSET
     else if i_Map i \<noteq> [] then Input_Map (i_Source i)
     else Input_Source (i_Source i))"


text \<open>
  A store module with one input of each kind, as \<open>parse\<close> leaves them, and the message
  \<open>ToProto\<close> hands to \<open>setInputsToProto\<close> for it.
\<close>

definition ex_inputs :: "Input list" where
  "ex_inputs =
    [\<lparr>i_Source = ''block'', i_Store = [], i_Map = [], i_Mode = [], i_Name = ''source:block''\<rparr>,
     \<lparr>i_Source = [], i_Store = [], i_Map = ''pairs'', i_Mode = [], i_Name = ''map:pairs''\<rparr>,
     \<lparr>i_Source = [], i_Store = ''prices'', i_Map = [], i_Mode = ''deltas'',
       i_Name = ''store:prices''\<rparr>]"

definition ex_module :: Module where
  "ex_module =
    \<lparr>m_Name = ''totals'', m_Kind = ''store'', m_UpdatePolicy = ''sum'', m_ValueType = ''int64'',
     m_Code = \<lparr>c_File = ''totals.wasm'', c_Native = [], c_Content = [0, 97, 115, 109],
               c_Entrypoint = ''build_state''\<rparr>,
     m_Inputs = ex_inputs, m_Output = \<lparr>o_Type = []\<rparr>\<rparr>"

definition ex_pbModule :: pbModule where
  "ex_pbModule =
    \<lparr>pb_Name = ''totals'', pb_CodeIndex = 0, pb_CodeEntrypoint = ''build_state'',
     pb_Inputs = []\<rparr>"


section \<open>sort.Slice\<close>

text \<open>
  \<open>sort.Slice\<close> belongs to the Go standard library. It is modelled by insertion sort,
  which is the algorithm the library runs on slices of at most twelve elements: the
  element at position \<open>i\<close> is swapped towards the front as long as \<open>less\<close> (here
  \<open>lt\<close>) holds between it and its left neighbour. \<open>insertionSort_step\<close> takes the prefix already sorted in
  reverse, nearest neighbour first. The theorems below use of the result only that it is
  a permutation of the slice in which \<open>less\<close> never holds from a later element to an
  earlier one that differs from it in the sort key.
\<close>

fun insertionSort_step :: "('a \<Rightarrow> 'a \<Rightarrow> bool) \<Rightarrow> 'a \<Rightarrow> 'a list \<Rightarrow> 'a list" where
  "insertionSort_step lt x [] = [x]"
| "insertionSort_step lt x (y # ys) =
    (if lt x y then y # insertionSort_step lt x ys else x # y # ys)"

definition sort_Slice :: "('a \<Rightarrow> 'a \<Rightarrow> bool) \<Rightarrow> 'a list \<Rightarrow> 'a list" where
  "sort_Slice lt xs = rev (foldl (\<lambda>sorted_rev x. insertionSort_step lt x sorted_rev) [] xs)"

section \<open>Store statistics\<close>

text \<open>
  The struct \<open>store2.FileInfo\<close> of the storage package, with the fields the tool reads.
\<close>

record store_FileInfo =
  fi_StartBlock :: "64 word"
  fi_EndBlock :: "64 word"
  fi_Filename :: string
  fi_Partial :: bool

text \<open>A loaded store is the sequence of its entries in the order \<open>Iter\<close> visits them.\<close>

type_synonym Store = "(string \<times> byte list) list"

text \<open>
  \<open>store2.Config\<close>: the identity of the store and the storage backend behind it. The
  backend is outside the repository; its answers are fields of the record.
  \<open>cf_ListSnapshotFiles\<close> is the result of \<open>conf.ListSnapshotFiles(ctx)\<close>, \<open>cf_Load b\<close> the
  result of \<open>conf.NewFullKV(zlog)\<close> followed by \<open>Load(ctx, b)\<close>, and \<open>cf_FileSize\<close> that of
  \<open>conf.FileSize(ctx, fileInfo)\<close>. A backend error is its message.
\<close>

record Config =
  cf_Name :: string
  cf_ModuleHash :: string
  cf_ValueType :: string
  cf_UpdatePolicy :: string
  cf_ModuleInitialBlock :: "64 word"
  cf_ListSnapshotFiles :: "string + store_FileInfo list"
  cf_Load :: "64 word \<Rightarrow> string + Store"
  cf_FileSize :: "store_FileInfo \<Rightarrow> string + 64 word"

text \<open>
  What \<open>getStore\<close> can end with besides a result: the three error returns and the run-time
  panic of an index expression out of range.
\<close>

datatype getStore_error =
    ListingError string
  | EmptyStoreError
  | LoadingError string
  | PanicIndexOutOfRange

text \<open>
  Lines 208-238. The emptiness test is on the listing as returned, before the partial
  files are filtered out; \<open>kvFiles[0]\<close> is evaluated without a test of its own.
\<close>

definition getStore :: "Config \<Rightarrow> getStore_error + (Store \<times> store_FileInfo)" where
  "getStore conf =
    (case cf_ListSnapshotFiles conf of
       Inl err \<Rightarrow> Inl (ListingError err)
     | Inr files \<Rightarrow>
         if length files = 0 then Inl EmptyStoreError
         else
           let kvFiles = filter (\<lambda>file. \<not> fi_Partial file) files;
               kvFiles = sort_Slice (\<lambda>a b. fi_EndBlock a \<ge> fi_EndBlock b) kvFiles
           in case kvFiles of
                [] \<Rightarrow> Inl PanicIndexOutOfRange
              | latestFile # _ \<Rightarrow>
                  (case cf_Load conf (fi_EndBlock latestFile) of
                     Inl err \<Rightarrow> Inl (LoadingError err)
                   | Inr s \<Rightarrow> Inr (s, latestFile)))"

text \<open>The structs of lines 158-194. \<open>float64\<close> is idealised as \<^typ>\<open>real\<close>.\<close>

record Range =
  r_StartBlock :: "64 word"
  r_ExclusiveEndBlock :: "64 word"

record FileInfo =
  f_FileName :: string
  f_FileSize :: "64 word"
  f_FileBlockRange :: Range

record KeyStats =
  k_TotalSize :: "64 word"
  k_LargestSize :: "64 word"
  k_AverageSize :: real
  k_StdDevSize :: real
  k_Largest :: string

record ValueStats =
  v_TotalSize :: "64 word"
  v_LargestSize :: "64 word"
  v_AverageSize :: real
  v_StdDevSize :: real
  v_Largest :: string

record StoreStats =
  s_Name :: string
  s_ModuleHash :: string
  s_InitialBlock :: "64 word"
  s_ValueType :: string
  s_UpdatePolicy :: string
  s_KeysCount :: "64 word"
  s_FileInfo :: "FileInfo option"
  s_KeyStats :: "KeyStats option"
  s_ValueStats :: "ValueStats option"

text \<open>Lines 196-206: the fields not named are zero values.\<close>

definition initializeStoreStats :: "Config \<Rightarrow> StoreStats" where
  "initializeStoreStats conf =
    \<lparr>s_Name = cf_Name conf, s_ModuleHash = cf_ModuleHash conf,
     s_InitialBlock = cf_ModuleInitialBlock conf, s_ValueType = cf_ValueType conf,
     s_UpdatePolicy = cf_UpdatePolicy conf, s_KeysCount = 0, s_FileInfo = None,
     s_KeyStats = None, s_ValueStats = None\<rparr>"

text \<open>
  Lines 292-298. For an empty slice Go computes \<open>0 / 0\<close>, which is NaN; division by zero
  in HOL is \<open>0\<close>, so the value of \<open>stdDev []\<close> below means nothing.
\<close>

definition stdDev :: "real list \<Rightarrow> real \<Rightarrow> real" where
  "stdDev xs mean = sqrt (foldl (\<lambda>sum x. sum + (x - mean) ^ 2) 0 xs / real (length xs))"

text \<open>
  What the callback of lines 249-268 reads and writes: the counter, the two sub-records
  that \<open>stats.KeyStats\<close> and \<open>stats.ValueStats\<close> point to, and the two slices of lengths.
\<close>

record iter_state =
  it_KeysCount :: "64 word"
  it_KeyStats :: KeyStats
  it_ValueStats :: ValueStats
  it_keyLens :: "real list"
  it_valueLens :: "real list"

definition visit :: "string \<Rightarrow> byte list \<Rightarrow> iter_state \<Rightarrow> string + iter_state" where
  "visit key val st =
    (let ks = it_KeyStats st; vs = it_ValueStats st;
         vs = vs\<lparr>v_TotalSize := v_TotalSize vs + of_nat (length val)\<rparr>;
         ks = ks\<lparr>k_TotalSize := k_TotalSize ks + of_nat (length key)\<rparr>;
         ks = (if of_nat (length key) > k_LargestSize ks
               then ks\<lparr>k_LargestSize := of_nat (length key), k_Largest := key\<rparr> else ks);
         vs = (if of_nat (length val) > v_LargestSize vs
               then vs\<lparr>v_LargestSize := of_nat (length val), v_Largest := key\<rparr> else vs)
     in Inr \<lparr>it_KeysCount = it_KeysCount st + 1, it_KeyStats = ks, it_ValueStats = vs,
             it_keyLens = it_keyLens st @ [real (length key)],
             it_valueLens = it_valueLens st @ [real (length val)]\<rparr>)"

text \<open>\<open>stateStore.Iter\<close>: the callback on every entry, stopping at its first error.\<close>

fun Iter :: "(string \<Rightarrow> byte list \<Rightarrow> 's \<Rightarrow> string + 's) \<Rightarrow> Store \<Rightarrow> 's \<Rightarrow> string + 's" where
  "Iter f [] st = Inr st"
| "Iter f ((key, val) # rest) st =
    (case f key val st of Inl err \<Rightarrow> Inl err | Inr st' \<Rightarrow> Iter f rest st')"

text \<open>
  Lines 240-290. The record is updated in place; on the error return the caller drops it,
  so the model returns either the error or the record as updated.
\<close>

definition calculateStoreStats :: "Store \<Rightarrow> StoreStats \<Rightarrow> string + StoreStats" where
  "calculateStoreStats stateStore stats =
    (let zeroKeyStats = \<lparr>k_TotalSize = 0, k_LargestSize = 0, k_AverageSize = 0,
                          k_StdDevSize = 0, k_Largest = []\<rparr>;
         zeroValueStats = \<lparr>v_TotalSize = 0, v_LargestSize = 0, v_AverageSize = 0,
                            v_StdDevSize = 0, v_Largest = []\<rparr>
     in case Iter visit stateStore
               \<lparr>it_KeysCount = s_KeysCount stats, it_KeyStats = zeroKeyStats,
                it_ValueStats = zeroValueStats, it_keyLens = [], it_valueLens = []\<rparr> of
          Inl err \<Rightarrow> Inl err
        | Inr st \<Rightarrow>
            if it_KeysCount st > 0 then
              let meanKeyLen = real (unat (k_TotalSize (it_KeyStats st))) /
                               real (unat (it_KeysCount st));
                  keyLenStdDev = stdDev (it_keyLens st) meanKeyLen;
                  meanValueLen = real (unat (v_TotalSize (it_ValueStats st))) /
                                 real (unat (it_KeysCount st));
                  valueLenStdDev = stdDev (it_valueLens st) meanValueLen
              in Inr (stats\<lparr>s_KeysCount := it_KeysCount st,
                        s_KeyStats := Some ((it_KeyStats st)
                          \<lparr>k_StdDevSize := keyLenStdDev, k_AverageSize := meanKeyLen\<rparr>),
                        s_ValueStats := Some ((it_ValueStats st)
                          \<lparr>v_StdDevSize := valueLenStdDev, v_AverageSize := meanValueLen\<rparr>)\<rparr>)
            else
              Inr (stats\<lparr>s_KeysCount := it_KeysCount st, s_KeyStats := None,
                     s_ValueStats := None\<rparr>))"

text \<open>
  The body of the goroutine that \<open>StoreStatsE\<close> starts for a store module, from
  \<open>initializeStoreStats\<close> on (lines 98-131). It either sends a record on the channel,
  or logs an error and returns without sending, or panics; a panic in a goroutine that
  nothing recovers ends the whole process.
\<close>

datatype task_outcome = Sent StoreStats | Dropped | Crashed

definition storeStatsTask :: "Config \<Rightarrow> task_outcome" where
  "storeStatsTask conf =
    (let storeStats = initializeStoreStats conf
     in case getStore conf of
          Inl EmptyStoreError \<Rightarrow> Sent storeStats
        | Inl PanicIndexOutOfRange \<Rightarrow> Crashed
        | Inl _ \<Rightarrow> Dropped
        | Inr (stateStore, fileInfo) \<Rightarrow>
            (case cf_FileSize conf fileInfo of
               Inl err \<Rightarrow> Dropped
             | Inr fileSize \<Rightarrow>
                 let storeStats = storeStats\<lparr>s_FileInfo := Some
                       \<lparr>f_FileName = fi_Filename fileInfo, f_FileSize = fileSize,
                        f_FileBlockRange = \<lparr>r_StartBlock = fi_StartBlock fileInfo,
                          r_ExclusiveEndBlock = fi_EndBlock fileInfo\<rparr>\<rparr>\<rparr>
                 in case calculateStoreStats stateStore storeStats of
                      Inl err \<Rightarrow> Dropped
                    | Inr storeStats \<Rightarrow> Sent storeStats))"

text \<open>
  Lines 139-147. \<open>graph.TopologicalSort()\<close> is not among the sources; its result enters
  as the list of the names of the sorted modules. The index map is filled in order, so a
  name that occurs twice keeps its last position, and a name that is not in the map reads
  as the zero value \<open>0\<close>.
\<close>

definition sortedModulesIndex :: "string list \<Rightarrow> (string \<rightharpoonup> nat)" where
  "sortedModulesIndex sortedModules =
     foldl (\<lambda>index (i, name). index(name \<mapsto> i)) Map.empty (enumerate 0 sortedModules)"

definition index_of :: "(string \<rightharpoonup> nat) \<Rightarrow> string \<Rightarrow> nat" where
  "index_of index name = (case index name of None \<Rightarrow> 0 | Some i \<Rightarrow> i)"

definition sortStats :: "string list \<Rightarrow> StoreStats list \<Rightarrow> StoreStats list" where
  "sortStats sortedModules stats =
    (let index = sortedModulesIndex sortedModules
     in sort_Slice (\<lambda>a b. index_of index (s_Name a) > index_of index (s_Name b)) stats)"


text \<open>
  A store with the three snapshot files of the specification's example: one partial file
  ending at block 100 and two complete files ending at 90 and 80. The snapshot at block
  90 holds three entries with keys of 3, 5 and 7 bytes and values of 10, 20 and 30 bytes.
\<close>

definition ex_file100 :: store_FileInfo where
  "ex_file100 = \<lparr>fi_StartBlock = 90, fi_EndBlock = 100,
     fi_Filename = ''0000000100-0000000090.partial'', fi_Partial = True\<rparr>"

definition ex_file90 :: store_FileInfo where
  "ex_file90 = \<lparr>fi_StartBlock = 0, fi_EndBlock = 90,
     fi_Filename = ''0000000090-0000000000.kv'', fi_Partial = False\<rparr>"

definition ex_file80 :: store_FileInfo where
  "ex_file80 = \<lparr>fi_StartBlock = 0, fi_EndBlock = 80,
     fi_Filename = ''0000000080-0000000000.kv'', fi_Partial = False\<rparr>"

definition ex_store :: Store where
  "ex_store = [(''abc'', replicate 10 0), (''abcde'', replicate 20 0),
     (''abcdefg'', replicate 30 0)]"

definition ex_conf :: Config where
  "ex_conf =
    \<lparr>cf_Name = ''totals'', cf_ModuleHash = ''4d2a'', cf_ValueType = ''int64'',
     cf_UpdatePolicy = ''UPDATE_POLICY_ADD'', cf_ModuleInitialBlock = 0,
     cf_ListSnapshotFiles = Inr [ex_file100, ex_file90, ex_file80],
     cf_Load = (\<lambda>b. if b = 90 then Inr ex_store else Inl ''no such snapshot''),
     cf_FileSize = (\<lambda>f. Inr 4096)\<rparr>"


section \<open>SHA-1\<close>

text \<open>
  \<open>crypto/sha1\<close> of the Go standard library computes the SHA-1 function of FIPS 180-4.
  It is written out here on 32-bit words: padding, message schedule, the eighty rounds
  and the big-endian digest.
\<close>

unbundle bit_operations_syntax

definition rotl :: "nat \<Rightarrow> 32 word \<Rightarrow> 32 word" where
  "rotl n w = push_bit n w OR drop_bit (32 - n) w"

definition be32 :: "byte list \<Rightarrow> 32 word" where
  "be32 bs = foldl (\<lambda>w b. push_bit 8 w OR ucast b) 0 bs"

definition bytes_be32 :: "32 word \<Rightarrow> byte list" where
  "bytes_be32 w = [ucast (drop_bit 24 w), ucast (drop_bit 16 w), ucast (drop_bit 8 w), ucast w]"

definition bytes_be64 :: "64 word \<Rightarrow> byte list" where
  "bytes_be64 w =
    [ucast (drop_bit 56 w), ucast (drop_bit 48 w), ucast (drop_bit 40 w), ucast (drop_bit 32 w),
     ucast (drop_bit 24 w), ucast (drop_bit 16 w), ucast (drop_bit 8 w), ucast w]"

text \<open>
  The message, the byte \<open>0x80\<close>, zero bytes up to 56 modulo 64, and the length of the
  message in bits as a 64-bit big-endian number.
\<close>

definition sha1_pad :: "byte list \<Rightarrow> byte list" where
  "sha1_pad msg =
     msg @ [0x80] @ replicate ((119 - length msg mod 64) mod 64) 0 @
     bytes_be64 (of_nat (8 * length msg))"

definition sha1_blocks :: "byte list \<Rightarrow> byte list list" where
  "sha1_blocks bs = map (\<lambda>i. take 64 (drop (64 * i) bs)) [0..<length bs div 64]"

fun sha1_schedule :: "nat \<Rightarrow> 32 word list \<Rightarrow> 32 word list" where
  "sha1_schedule 0 w = w"
| "sha1_schedule (Suc n) w =
     sha1_schedule n
       (w @ [rotl 1 (w ! (length w - 3) XOR w ! (length w - 8) XOR
                     w ! (length w - 14) XOR w ! (length w - 16))])"

type_synonym sha1_state = "32 word \<times> 32 word \<times> 32 word \<times> 32 word \<times> 32 word"

definition sha1_round :: "32 word list \<Rightarrow> sha1_state \<Rightarrow> nat \<Rightarrow> sha1_state" where
  "sha1_round w st i =
    (case st of (a, b, c, d, e) \<Rightarrow>
       let f = (if i < 20 then (b AND c) OR (NOT b AND d)
                else if i < 40 then b XOR c XOR d
                else if i < 60 then (b AND c) OR (b AND d) OR (c AND d)
                else b XOR c XOR d);
           k = (if i < 20 then 0x5A827999
                else if i < 40 then 0x6ED9EBA1
                else if i < 60 then 0x8F1BBCDC
                else 0xCA62C1D6)
       in (rotl 5 a + f + e + k + w ! i, a, rotl 30 b, c, d))"

definition sha1_compress :: "sha1_state \<Rightarrow> byte list \<Rightarrow> sha1_state" where
  "sha1_compress h block =
    (let w = sha1_schedule 64 (map (\<lambda>i. be32 (take 4 (drop (4 * i) block))) [0..<16])
     in case (h, foldl (sha1_round w) h [0..<80]) of
          ((h0, h1, h2, h3, h4), (a, b, c, d, e)) \<Rightarrow> (h0 + a, h1 + b, h2 + c, h3 + d, h4 + e))"

definition sha1_init :: sha1_state where
  "sha1_init = (0x67452301, 0xEFCDAB89, 0x98BADCFE, 0x10325476, 0xC3D2E1F0)"

definition sha1_digest :: "sha1_state \<Rightarrow> byte list" where
  "sha1_digest st =
    (case st of (h0, h1, h2, h3, h4) \<Rightarrow>
       bytes_be32 h0 @ bytes_be32 h1 @ bytes_be32 h2 @ bytes_be32 h3 @ bytes_be32 h4)"

definition sha1 :: "byte list \<Rightarrow> byte list" where
  "sha1 msg = sha1_digest (foldl sha1_compress sha1_init (sha1_blocks (sha1_pad msg)))"


section \<open>Module.Signature\<close>

text \<open>
  The type \<open>ModuleGraph\<close> and its method \<open>AncestorsOf\<close> are not among the sources. A graph
  enters \<open>Signature\<close> only through \<open>graph.AncestorsOf(name)\<close>, so it is represented by the
  function that method computes: for a module name either an error (its message) or the
  list of ancestors in the order the method returns them.
\<close>

record ModuleGraph =
  g_AncestorsOf :: "string \<Rightarrow> string + Module list"

text \<open>\<open>ancestors, _ := graph.AncestorsOf(m.Name)\<close>: on an error the slice is \<open>nil\<close>.\<close>

definition ancestors_of :: "ModuleGraph \<Rightarrow> Module \<Rightarrow> Module list" where
  "ancestors_of graph m =
    (case g_AncestorsOf graph (m_Name m) of Inl err \<Rightarrow> [] | Inr ancestors \<Rightarrow> ancestors)"

text \<open>
  Lines 297-320. The method calls itself on every ancestor, and nothing in it bounds the
  depth: on a graph in which a module is among its own ancestors the call never returns.
  The first argument bounds the depth of the calls, and \<open>None\<close> says that the bound was
  reached. Sorting \<open>m.Inputs\<close> in place only reorders the inputs of the module; the digest
  reads them after the sort and \<open>AncestorsOf\<close> takes the name alone, so the reordering is
  not threaded through the calls.
\<close>

fun Signature :: "nat \<Rightarrow> Module \<Rightarrow> ModuleGraph \<Rightarrow> byte list option" where
  "Signature 0 m graph = None"
| "Signature (Suc depth) m graph =
    (let buf = bytes_of (m_Kind m) @ c_Content (m_Code m) @ bytes_of (c_Entrypoint (m_Code m));
         inputs = sort_Slice (\<lambda>a b. i_Name a < i_Name b) (m_Inputs m);
         buf = buf @ concat (map (\<lambda>input. bytes_of (i_Name input)) inputs)
     in case those (map (\<lambda>ancestor. Signature depth ancestor graph) (ancestors_of graph m)) of
          None \<Rightarrow> None
        | Some sigs \<Rightarrow> Some (sha1 (buf @ concat sigs)))"

text \<open>
  The bytes the specification says are hashed: kind, code, entrypoint, the names of the
  inputs in lexicographic order, and the signatures of the ancestors.
\<close>

definition signature_input :: "Module \<Rightarrow> byte list list \<Rightarrow> byte list" where
  "signature_input m sigs =
     bytes_of (m_Kind m) @ c_Content (m_Code m) @ bytes_of (c_Entrypoint (m_Code m)) @
     concat (map bytes_of (sort (map i_Name (m_Inputs m)))) @ concat sigs"

text \<open>
  Two modules, each in its graph, are identical when they agree in kind, code bytes and
  entrypoint, have the same inputs up to their order, and their ancestors are pairwise
  identical in the same sense.
\<close>

inductive identical :: "ModuleGraph \<Rightarrow> ModuleGraph \<Rightarrow> Module \<Rightarrow> Module \<Rightarrow> bool"
  for g1 g2 where
  "m_Kind m1 = m_Kind m2 \<Longrightarrow>
   c_Content (m_Code m1) = c_Content (m_Code m2) \<Longrightarrow>
   c_Entrypoint (m_Code m1) = c_Entrypoint (m_Code m2) \<Longrightarrow>
   mset (m_Inputs m1) = mset (m_Inputs m2) \<Longrightarrow>
   list_all2 (identical g1 g2) (ancestors_of g1 m1) (ancestors_of g2 m2) \<Longrightarrow>
   identical g1 g2 m1 m2"

text \<open>
  A graph of three modules: \<open>totals\<close> (the store module above) reads the store \<open>prices\<close>
  and the map \<open>pairs\<close>, and \<open>prices\<close> reads \<open>pairs\<close>.
\<close>

definition ex_pairs :: Module where
  "ex_pairs =
    \<lparr>m_Name = ''pairs'', m_Kind = ''map'', m_UpdatePolicy = [], m_ValueType = [],
     m_Code = \<lparr>c_File = ''pairs.wasm'', c_Native = [], c_Content = [0, 97, 115, 109, 1],
               c_Entrypoint = ''map''\<rparr>,
     m_Inputs = [\<lparr>i_Source = ''block'', i_Store = [], i_Map = [], i_Mode = [],
                  i_Name = ''source:block''\<rparr>],
     m_Output = \<lparr>o_Type = ''proto:pairs''\<rparr>\<rparr>"

definition ex_prices :: Module where
  "ex_prices =
    \<lparr>m_Name = ''prices'', m_Kind = ''store'', m_UpdatePolicy = ''replace'',
     m_ValueType = ''bytes'',
     m_Code = \<lparr>c_File = ''prices.wasm'', c_Native = [], c_Content = [0, 97, 115, 109, 2],
               c_Entrypoint = ''build_state''\<rparr>,
     m_Inputs = [\<lparr>i_Source = [], i_Store = [], i_Map = ''pairs'', i_Mode = [],
                  i_Name = ''map:pairs''\<rparr>],
     m_Output = \<lparr>o_Type = []\<rparr>\<rparr>"

definition ex_graph :: ModuleGraph where
  "ex_graph =
    \<lparr>g_AncestorsOf = (\<lambda>name.
       if name = ''totals'' then Inr [ex_pairs, ex_prices]
       else if name = ''prices'' then Inr [ex_pairs]
       else if name = ''pairs'' then Inr []
       else Inl ''could not find module'')\<rparr>"

definition ex_rank :: "string \<Rightarrow> nat" where
  "ex_rank name = (if name = ''totals'' then 2 else if name = ''prices'' then 1 else 0)"

text \<open>
  Two map modules without inputs and without ancestors. They differ in their code and in
  their entrypoint, but the code followed by the entrypoint is the same byte sequence.
\<close>

definition ex_split_early :: Module where
  "ex_split_early =
    \<lparr>m_Name = ''early'', m_Kind = ''map'', m_UpdatePolicy = [], m_ValueType = [],
     m_Code = \<lparr>c_File = ''early.wasm'', c_Native = [], c_Content = [0x61],
               c_Entrypoint = ''bc''\<rparr>,
     m_Inputs = [], m_Output = \<lparr>o_Type = ''proto:out''\<rparr>\<rparr>"

definition ex_split_late :: Module where
  "ex_split_late =
    \<lparr>m_Name = ''late'', m_Kind = ''map'', m_UpdatePolicy = [], m_ValueType = [],
     m_Code = \<lparr>c_File = ''late.wasm'', c_Native = [], c_Content = [0x61, 0x62],
               c_Entrypoint = ''c''\<rparr>,
     m_Inputs = [], m_Output = \<lparr>o_Type = ''proto:out''\<rparr>\<rparr>"

definition ex_flat_graph :: ModuleGraph where
  "ex_flat_graph = \<lparr>g_AncestorsOf = (\<lambda>name. Inr [])\<rparr>"


section \<open>Update-policy validation\<close>

lemma colon_split:
  assumes "CHR '':'' \<notin> set a" and "CHR '':'' \<notin> set c"
  shows "p @ CHR '':'' # v = a @ CHR '':'' # c \<longleftrightarrow> p = a \<and> v = c"
proof
  assume eq: "p @ CHR '':'' # v = a @ CHR '':'' # c"
  then obtain us where
    "(p = a @ us \<and> us @ CHR '':'' # v = CHR '':'' # c) \<or>
     (p @ us = a \<and> CHR '':'' # v = us @ CHR '':'' # c)"
    by (auto simp: append_eq_append_conv2)
  then show "p = a \<and> v = c"
  proof
    assume h: "p = a @ us \<and> us @ CHR '':'' # v = CHR '':'' # c"
    show ?thesis
    proof (cases us)
      case Nil
      with h show ?thesis by simp
    next
      case (Cons u us')
      with h have "c = us' @ CHR '':'' # v" by simp
      with assms(2) show ?thesis by simp
    qed
  next
    assume h: "p @ us = a \<and> CHR '':'' # v = us @ CHR '':'' # c"
    show ?thesis
    proof (cases us)
      case Nil
      with h show ?thesis by simp
    next
      case (Cons u us')
      with h have "u = CHR '':''" by simp
      with h Cons have "CHR '':'' \<in> set a" by auto
      with assms(1) show ?thesis by simp
    qed
  qed
next
  assume "p = a \<and> v = c"
  then show "p @ CHR '':'' # v = a @ CHR '':'' # c" by simp
qed

lemma found_iff:
  "foldl (\<lambda>found comb. if s = comb then True else found) b cs \<longleftrightarrow> b \<or> s \<in> set cs"
  by (induction cs arbitrary: b) auto


lemma sprintf_colon_eq:
  assumes "CHR '':'' \<notin> set a" and "CHR '':'' \<notin> set c"
  shows "sprintf_colon p v = a @ '':'' @ c \<longleftrightarrow> p = a \<and> v = c"
  using colon_split [OF assms, of p v] by (simp add: sprintf_colon_def)

lemma combinations_legal_pairs:
  "combinations = map (\<lambda>(a, c). sprintf_colon a c) legal_pairs"
  by (simp add: combinations_def legal_pairs_def sprintf_colon_def)

lemma legal_pairs_colon_free:
  "list_all (\<lambda>(a, c). CHR '':'' \<notin> set a \<and> CHR '':'' \<notin> set c) legal_pairs"
  by (simp add: legal_pairs_def)

lemma sprintf_colon_in_map:
  "list_all (\<lambda>(a, c). CHR '':'' \<notin> set a \<and> CHR '':'' \<notin> set c) ps \<Longrightarrow>
   sprintf_colon p v \<in> set (map (\<lambda>(a, c). sprintf_colon a c) ps) \<longleftrightarrow> (p, v) \<in> set ps"
proof (induction ps)
  case Nil
  then show ?case by simp
next
  case (Cons q ps)
  obtain a c where q: "q = (a, c)" by (cases q)
  from Cons.prems q have "CHR '':'' \<notin> set a" "CHR '':'' \<notin> set c" by simp_all
  then have "sprintf_colon p v = sprintf_colon a c \<longleftrightarrow> p = a \<and> v = c"
    using sprintf_colon_eq [of a c p v] by (simp add: sprintf_colon_def)
  with Cons q show ?case by auto
qed

lemma legal_pairs_iff:
  "(p, v) \<in> set legal_pairs \<longleftrightarrow>
     (p \<in> numeric_policies \<and> v \<in> numeric_types) \<or>
     (p \<in> overwrite_policies \<and> v \<in> opaque_types)"
proof -
  have "set legal_pairs =
      numeric_policies \<times> numeric_types \<union> overwrite_policies \<times> opaque_types"
    unfolding legal_pairs_def numeric_policies_def numeric_types_def overwrite_policies_def
      opaque_types_def
    by (simp only: set_append set_product set_simps)
  then show ?thesis by (simp only: Un_iff mem_Sigma_iff)
qed

lemma sprintf_colon_in_combinations:
  "sprintf_colon p v \<in> set combinations \<longleftrightarrow>
     (p \<in> numeric_policies \<and> v \<in> numeric_types) \<or>
     (p \<in> overwrite_policies \<and> v \<in> opaque_types)"
  by (simp only: combinations_legal_pairs sprintf_colon_in_map [OF legal_pairs_colon_free]
        legal_pairs_iff)

text \<open>
  C5. \<open>validateStoreBuilder\<close> returns no error exactly on the pairs where the policy is
  one of max, min, sum and the value type one of bigint, int64, bigfloat, float64, or the
  policy is replace or ignore and the value type one of bytes, string, proto. It returns
  one of the two missing-field errors exactly when the update policy or the value type is
  the empty string, and the invalid-combination error, a different error, exactly when both
  are set and the pair is not legal. For max with bigint it succeeds, for max with string
  it returns the invalid-combination error, for an empty policy with int64 a missing-field
  error.
\<close>

theorem validateStoreBuilder_legal_pairs:
  "(validateStoreBuilder m = None \<longleftrightarrow> legal_combination (m_UpdatePolicy m) (m_ValueType m)) \<and>
   (validateStoreBuilder m \<in> {Some MissingUpdatePolicy, Some MissingValueType} \<longleftrightarrow>
      m_UpdatePolicy m = [] \<or> m_ValueType m = []) \<and>
   (validateStoreBuilder m = Some InvalidCombination \<longleftrightarrow>
      m_UpdatePolicy m \<noteq> [] \<and> m_ValueType m \<noteq> [] \<and>
      \<not> legal_combination (m_UpdatePolicy m) (m_ValueType m)) \<and>
   Some InvalidCombination \<notin> {Some MissingUpdatePolicy, Some MissingValueType} \<and>
   validateStoreBuilder (m\<lparr>m_UpdatePolicy := ''max'', m_ValueType := ''bigint''\<rparr>) = None \<and>
   validateStoreBuilder (m\<lparr>m_UpdatePolicy := ''max'', m_ValueType := ''string''\<rparr>) =
     Some InvalidCombination \<and>
   validateStoreBuilder (m\<lparr>m_UpdatePolicy := [], m_ValueType := ''int64''\<rparr>) =
     Some MissingUpdatePolicy"
proof -
  have empty_not_legal: "\<not> legal_combination [] v" "\<not> legal_combination p []" for p v
    by (simp_all add: legal_combination_def numeric_policies_def overwrite_policies_def
        numeric_types_def opaque_types_def)
  have v: "validateStoreBuilder m' =
      (if m_UpdatePolicy m' = [] then Some MissingUpdatePolicy
       else if m_ValueType m' = [] then Some MissingValueType
       else if legal_combination (m_UpdatePolicy m') (m_ValueType m')
            then None else Some InvalidCombination)" for m'
    by (simp add: validateStoreBuilder_def found_iff sprintf_colon_in_combinations
        legal_combination_def)
  have 1: "validateStoreBuilder m = None \<longleftrightarrow>
      legal_combination (m_UpdatePolicy m) (m_ValueType m)"
    using empty_not_legal by (auto simp: v)
  have 2: "validateStoreBuilder m \<in> {Some MissingUpdatePolicy, Some MissingValueType} \<longleftrightarrow>
      m_UpdatePolicy m = [] \<or> m_ValueType m = []"
    by (simp add: v)
  have 3: "validateStoreBuilder m = Some InvalidCombination \<longleftrightarrow>
      m_UpdatePolicy m \<noteq> [] \<and> m_ValueType m \<noteq> [] \<and>
      \<not> legal_combination (m_UpdatePolicy m) (m_ValueType m)"
    by (simp add: v)
  have 4: "validateStoreBuilder (m\<lparr>m_UpdatePolicy := ''max'', m_ValueType := ''bigint''\<rparr>) = None"
    by (simp add: v legal_combination_def numeric_policies_def numeric_types_def)
  have 5: "validateStoreBuilder (m\<lparr>m_UpdatePolicy := ''max'', m_ValueType := ''string''\<rparr>) =
      Some InvalidCombination"
    by (simp add: v legal_combination_def numeric_policies_def numeric_types_def
        overwrite_policies_def)
  have 6: "validateStoreBuilder (m\<lparr>m_UpdatePolicy := [], m_ValueType := ''int64''\<rparr>) =
      Some MissingUpdatePolicy"
    by (simp add: v)
  from 1 2 3 4 5 6 show ?thesis by simp
qed

theorem validateStoreBuilder_legal_pairs_witness:
  "validateStoreBuilder ex_module = None \<and>
   validateStoreBuilder (ex_module\<lparr>m_ValueType := ''string''\<rparr>) = Some InvalidCombination \<and>
   validateStoreBuilder (ex_module\<lparr>m_ValueType := []\<rparr>) \<in>
     {Some MissingUpdatePolicy, Some MissingValueType}"
  using validateStoreBuilder_legal_pairs [of ex_module]
    validateStoreBuilder_legal_pairs [of "ex_module\<lparr>m_ValueType := ''string''\<rparr>"]
    validateStoreBuilder_legal_pairs [of "ex_module\<lparr>m_ValueType := []\<rparr>"]
  by (simp add: ex_module_def legal_combination_def numeric_policies_def numeric_types_def
      overwrite_policies_def opaque_types_def)

section \<open>Parsing an input\<close>

lemma exactly_one_cases:
  "exactly_one i \<longleftrightarrow>
     (i_Map i \<noteq> [] \<and> i_Store i = [] \<and> i_Source i = []) \<or>
     (i_Store i \<noteq> [] \<and> i_Map i = [] \<and> i_Source i = []) \<or>
     (i_Source i \<noteq> [] \<and> i_Map i = [] \<and> i_Store i = [])"
  by (auto simp: exactly_one_def)

text \<open>
  C6. \<open>parse\<close> returns no error if and only if exactly one of source, store and map is
  non-empty and, when store is the one, the mode is empty, "get" or "deltas". On success
  the input is the one given with its name set to "source:", "store:" or "map:" followed
  by the identifier of the populated field, and with an empty mode of a store input
  replaced by "get". It returns an error when none or more than one of the three fields is
  set, and for a store input with any other mode.
\<close>

theorem parse_exactly_one:
  "(snd (parse i) = None \<longleftrightarrow>
      exactly_one i \<and> (i_Store i \<noteq> [] \<longrightarrow> i_Mode i \<in> {[], ''get'', ''deltas''})) \<and>
   (snd (parse i) = None \<longrightarrow>
      (i_Source i \<noteq> [] \<longrightarrow> fst (parse i) = i\<lparr>i_Name := ''source:'' @ i_Source i\<rparr>) \<and>
      (i_Map i \<noteq> [] \<longrightarrow> fst (parse i) = i\<lparr>i_Name := ''map:'' @ i_Map i\<rparr>) \<and>
      (i_Store i \<noteq> [] \<longrightarrow>
         fst (parse i) =
           i\<lparr>i_Name := ''store:'' @ i_Store i,
             i_Mode := (if i_Mode i = [] then ''get'' else i_Mode i)\<rparr>)) \<and>
   (\<not> exactly_one i \<longrightarrow> snd (parse i) = Some NotExactlyOne) \<and>
   (exactly_one i \<and> i_Store i \<noteq> [] \<and> i_Mode i \<notin> {[], ''get'', ''deltas''} \<longrightarrow>
      snd (parse i) = Some (InvalidMode (''store:'' @ i_Store i)))"
proof -
  have 1: "snd (parse i) = None \<longleftrightarrow>
      exactly_one i \<and> (i_Store i \<noteq> [] \<longrightarrow> i_Mode i \<in> {[], ''get'', ''deltas''})"
    unfolding exactly_one_cases by (auto simp: parse_def Let_def)
  have 2: "snd (parse i) = None \<Longrightarrow> i_Source i \<noteq> [] \<Longrightarrow>
      fst (parse i) = i\<lparr>i_Name := ''source:'' @ i_Source i\<rparr>"
    by (auto simp: parse_def Let_def split: if_splits)
  have 3: "snd (parse i) = None \<Longrightarrow> i_Map i \<noteq> [] \<Longrightarrow>
      fst (parse i) = i\<lparr>i_Name := ''map:'' @ i_Map i\<rparr>"
    by (auto simp: parse_def Let_def split: if_splits)
  have 4: "snd (parse i) = None \<Longrightarrow> i_Store i \<noteq> [] \<Longrightarrow>
      fst (parse i) =
        i\<lparr>i_Name := ''store:'' @ i_Store i,
          i_Mode := (if i_Mode i = [] then ''get'' else i_Mode i)\<rparr>"
    by (auto simp: parse_def Let_def split: if_splits)
  have 5: "\<not> exactly_one i \<Longrightarrow> snd (parse i) = Some NotExactlyOne"
    unfolding exactly_one_cases by (auto simp: parse_def Let_def)
  have 6: "exactly_one i \<Longrightarrow> i_Store i \<noteq> [] \<Longrightarrow> i_Mode i \<notin> {[], ''get'', ''deltas''} \<Longrightarrow>
      snd (parse i) = Some (InvalidMode (''store:'' @ i_Store i))"
    unfolding exactly_one_cases by (auto simp: parse_def Let_def)
  from 1 2 3 4 5 6 show ?thesis by blast
qed

theorem parse_exactly_one_witness:
  "parse \<lparr>i_Source = [], i_Store = ''prices'', i_Map = [], i_Mode = [], i_Name = []\<rparr> =
     (\<lparr>i_Source = [], i_Store = ''prices'', i_Map = [], i_Mode = ''get'',
       i_Name = ''store:prices''\<rparr>, None) \<and>
   parse \<lparr>i_Source = [], i_Store = [], i_Map = ''pairs'', i_Mode = [], i_Name = []\<rparr> =
     (\<lparr>i_Source = [], i_Store = [], i_Map = ''pairs'', i_Mode = [], i_Name = ''map:pairs''\<rparr>,
      None) \<and>
   parse \<lparr>i_Source = ''block'', i_Store = [], i_Map = [], i_Mode = [], i_Name = []\<rparr> =
     (\<lparr>i_Source = ''block'', i_Store = [], i_Map = [], i_Mode = [],
       i_Name = ''source:block''\<rparr>, None) \<and>
   snd (parse \<lparr>i_Source = [], i_Store = [], i_Map = [], i_Mode = [], i_Name = []\<rparr>) =
     Some NotExactlyOne \<and>
   snd (parse \<lparr>i_Source = ''block'', i_Store = ''prices'', i_Map = [], i_Mode = [],
          i_Name = []\<rparr>) = Some NotExactlyOne \<and>
   snd (parse \<lparr>i_Source = [], i_Store = ''prices'', i_Map = [], i_Mode = ''GET'',
          i_Name = []\<rparr>) = Some (InvalidMode ''store:prices'')"
  using
    parse_exactly_one [of "\<lparr>i_Source = [], i_Store = ''prices'', i_Map = [], i_Mode = [],
      i_Name = []\<rparr>"]
    parse_exactly_one [of "\<lparr>i_Source = [], i_Store = [], i_Map = ''pairs'', i_Mode = [],
      i_Name = []\<rparr>"]
    parse_exactly_one [of "\<lparr>i_Source = ''block'', i_Store = [], i_Map = [], i_Mode = [],
      i_Name = []\<rparr>"]
    parse_exactly_one [of "\<lparr>i_Source = [], i_Store = [], i_Map = [], i_Mode = [],
      i_Name = []\<rparr>"]
    parse_exactly_one [of "\<lparr>i_Source = ''block'', i_Store = ''prices'', i_Map = [],
      i_Mode = [], i_Name = []\<rparr>"]
    parse_exactly_one [of "\<lparr>i_Source = [], i_Store = ''prices'', i_Map = [], i_Mode = ''GET'',
      i_Name = []\<rparr>"]
  by (simp add: exactly_one_def prod_eq_iff)

section \<open>Conversion of the inputs to the wire message\<close>

lemma parsed_shape:
  assumes "parse i0 = (i, None)"
  shows "exactly_one i" and "i_Store i \<noteq> [] \<Longrightarrow> i_Mode i = ''get'' \<or> i_Mode i = ''deltas''"
  using assms unfolding exactly_one_cases
  by (auto simp: parse_def Let_def split: if_splits)

lemma parsed_iff: "parsed i \<longleftrightarrow> (\<exists>i0. parse i0 = (i, None))"
proof
  assume "parsed i"
  then show "\<exists>i0. parse i0 = (i, None)"
    unfolding parsed_def by blast
next
  assume "\<exists>i0. parse i0 = (i, None)"
  then obtain i0 where "parse i0 = (i, None)" by blast
  then show "parsed i"
    by (auto simp: parsed_def parse_def Let_def split: if_splits)
qed

lemma store_mode_parsed: "store_mode ''get'' = InputStore_UNSET" "store_mode ''deltas'' = InputStore_UNSET"
  by (simp_all add: store_mode_def)

lemma setInputsToProto_loop_parsed:
  "list_all parsed inputs \<Longrightarrow>
   setInputsToProto_loop m inputs pbModule =
     (pbModule\<lparr>pb_Inputs := pb_Inputs pbModule @ map (emitted m) inputs\<rparr>, None)"
proof (induction inputs arbitrary: pbModule)
  case Nil
  then show ?case by simp
next
  case (Cons input rest)
  from Cons.prems obtain i0 where p: "parse i0 = (input, None)"
    by (auto simp: parsed_iff)
  have one: "exactly_one input" by (rule parsed_shape(1) [OF p])
  have mode: "i_Store input \<noteq> [] \<Longrightarrow> store_mode (i_Mode input) = InputStore_UNSET"
    using parsed_shape(2) [OF p] store_mode_parsed by auto
  from Cons.prems have rest: "list_all parsed rest" by simp
  show ?case
    using one mode unfolding exactly_one_cases
    by (auto simp: Cons.IH [OF rest] emitted_def)
qed

text \<open>
  C9. For a module whose inputs were all parsed successfully, \<open>setInputsToProto\<close> returns
  no error and appends one message per input, in order. The message of a store input is
  an \<open>InputStore\<close> whose mode is \<open>UNSET\<close> (the parsed modes "get" and "deltas" match none
  of the cases "UNSET", "GET", "Delta") and whose module name is the name of the module
  that declares the input, not of the store it refers to. The message of a map input is
  an \<open>InputMap\<close> whose module name is the source field of the input, which is empty for
  a parsed map input.
\<close>

theorem setInputsToProto_parsed:
  assumes "list_all parsed (m_Inputs m)"
  shows "setInputsToProto m pbModule =
      (pbModule\<lparr>pb_Inputs := pb_Inputs pbModule @ map (emitted m) (m_Inputs m)\<rparr>, None) \<and>
    (\<forall>i \<in> set (m_Inputs m).
       (i_Store i \<noteq> [] \<longrightarrow> emitted m i = Input_Store (m_Name m) InputStore_UNSET) \<and>
       (i_Map i \<noteq> [] \<longrightarrow> emitted m i = Input_Map (i_Source i) \<and> i_Source i = []))"
proof -
  have "emitted m i = Input_Map (i_Source i) \<and> i_Source i = []"
    if "i \<in> set (m_Inputs m)" and "i_Map i \<noteq> []" for i
  proof -
    from that(1) assms obtain i0 where "parse i0 = (i, None)"
      by (auto simp: list_all_iff parsed_iff)
    then have "exactly_one i" by (rule parsed_shape(1))
    with that(2) show ?thesis
      unfolding exactly_one_cases by (auto simp: emitted_def)
  qed
  then show ?thesis
    using assms by (auto simp: setInputsToProto_def setInputsToProto_loop_parsed emitted_def)
qed


lemma ex_inputs_parsed: "list_all parsed (m_Inputs ex_module)"
proof -
  have "\<forall>i \<in> set ex_inputs. parsed i"
    by (simp add: ex_inputs_def parsed_def parse_def)
  then show ?thesis by (simp add: ex_module_def list_all_iff)
qed

theorem setInputsToProto_parsed_witness:
  "setInputsToProto ex_module ex_pbModule =
     (ex_pbModule\<lparr>pb_Inputs :=
        [Input_Source ''block'', Input_Map [], Input_Store ''totals'' InputStore_UNSET]\<rparr>, None)"
  using setInputsToProto_parsed [OF ex_inputs_parsed, of ex_pbModule]
  by (simp add: ex_module_def ex_inputs_def ex_pbModule_def emitted_def)


section \<open>The model of sort.Slice sorts\<close>

lemma mset_insertionSort_step: "mset (insertionSort_step lt x ys) = add_mset x (mset ys)"
  by (induction ys) simp_all

lemma mset_insertionSort_foldl:
  "mset (foldl (\<lambda>sorted_rev x. insertionSort_step lt x sorted_rev) acc xs) = mset acc + mset xs"
  by (induction xs arbitrary: acc) (simp_all add: mset_insertionSort_step)

lemma mset_sort_Slice: "mset (sort_Slice lt xs) = mset xs"
  by (simp add: sort_Slice_def mset_insertionSort_foldl)

lemma set_sort_Slice: "set (sort_Slice lt xs) = set xs"
  using mset_sort_Slice [of lt xs] by (metis set_mset_mset)

text \<open>
  \<open>S a b\<close> reads "\<open>a\<close> may stand before \<open>b\<close>". It has to be transitive, to hold from
  \<open>x\<close> to \<open>y\<close> when \<open>lt x y\<close>, and from \<open>y\<close> to \<open>x\<close> when \<open>lt x y\<close> fails.
\<close>

lemma sorted_insertionSort_step:
  assumes trans: "\<And>a b c. S a b \<Longrightarrow> S b c \<Longrightarrow> S a c"
    and no: "\<And>x y. \<not> lt x y \<Longrightarrow> S y x"
    and yes: "\<And>x y. lt x y \<Longrightarrow> S x y"
  shows "sorted_wrt (\<lambda>a b. S b a) ys \<Longrightarrow> sorted_wrt (\<lambda>a b. S b a) (insertionSort_step lt x ys)"
proof (induction ys)
  case Nil
  then show ?case by simp
next
  case (Cons y ys)
  show ?case
  proof (cases "lt x y")
    case True
    have "set (insertionSort_step lt x ys) = insert x (set ys)"
      using mset_insertionSort_step [of lt x ys] by (metis set_mset_mset set_mset_add_mset_insert)
    with True Cons yes show ?thesis by auto
  next
    case False
    then have "S y x" by (rule no)
    moreover have "S z x" if "z \<in> set ys" for z
    proof -
      from that Cons.prems have "S z y" by simp
      then show ?thesis using \<open>S y x\<close> by (rule trans)
    qed
    ultimately show ?thesis using False Cons.prems by simp
  qed
qed

lemma sorted_sort_Slice:
  assumes trans: "\<And>a b c. S a b \<Longrightarrow> S b c \<Longrightarrow> S a c"
    and no: "\<And>x y. \<not> lt x y \<Longrightarrow> S y x"
    and yes: "\<And>x y. lt x y \<Longrightarrow> S x y"
  shows "sorted_wrt S (sort_Slice lt xs)"
proof -
  have "sorted_wrt (\<lambda>a b. S b a) acc \<Longrightarrow>
      sorted_wrt (\<lambda>a b. S b a) (foldl (\<lambda>sorted_rev x. insertionSort_step lt x sorted_rev) acc xs)"
    for acc
  proof (induction xs arbitrary: acc)
    case Nil
    then show ?case by simp
  next
    case (Cons x xs)
    have "sorted_wrt (\<lambda>a b. S b a) (insertionSort_step lt x acc)"
      using trans no yes Cons.prems by (rule sorted_insertionSort_step)
    then show ?case using Cons.IH by simp
  qed
  from this [of "[]"] show ?thesis
    by (simp add: sort_Slice_def sorted_wrt_rev)
qed

section \<open>Snapshot selection\<close>

lemma sorted_kvFiles:
  "sorted_wrt (\<lambda>a b. fi_EndBlock a \<ge> fi_EndBlock b)
     (sort_Slice (\<lambda>a b. fi_EndBlock a \<ge> fi_EndBlock b) kvFiles)"
  by (rule sorted_sort_Slice) auto

text \<open>
  C4. When the listing holds at least one file that is not partial, the file that
  \<open>getStore\<close> selects is a file of the listing that is not partial and whose end block is
  the greatest among the files that are not partial; \<open>getStore\<close> loads the store at that
  end block and returns it with that file, or returns the error of the load.
\<close>

theorem getStore_selects_latest:
  assumes "cf_ListSnapshotFiles conf = Inr files"
    and "\<exists>f \<in> set files. \<not> fi_Partial f"
  shows "\<exists>latestFile.
      latestFile \<in> set files \<and> \<not> fi_Partial latestFile \<and>
      (\<forall>f \<in> set files. \<not> fi_Partial f \<longrightarrow> fi_EndBlock f \<le> fi_EndBlock latestFile) \<and>
      getStore conf =
        (case cf_Load conf (fi_EndBlock latestFile) of
           Inl err \<Rightarrow> Inl (LoadingError err)
         | Inr s \<Rightarrow> Inr (s, latestFile))"
proof -
  let ?lt = "\<lambda>a b. fi_EndBlock a \<ge> fi_EndBlock b"
  let ?kv = "sort_Slice ?lt (filter (\<lambda>file. \<not> fi_Partial file) files)"
  have set_kv: "set ?kv = {f \<in> set files. \<not> fi_Partial f}"
    by (simp add: set_sort_Slice)
  with assms(2) have "?kv \<noteq> []" by force
  then obtain latestFile rest where kv: "?kv = latestFile # rest"
    by (cases ?kv) auto
  have "sorted_wrt ?lt ?kv" by (rule sorted_kvFiles)
  with kv have top: "\<forall>f \<in> set rest. fi_EndBlock f \<le> fi_EndBlock latestFile" by simp
  from kv set_kv have mem: "latestFile \<in> set files" "\<not> fi_Partial latestFile"
    by (metis (mono_tags, lifting) list.set_intros(1) mem_Collect_eq)+
  have max: "fi_EndBlock f \<le> fi_EndBlock latestFile" if "f \<in> set files" "\<not> fi_Partial f" for f
  proof -
    from that set_kv have "f \<in> set ?kv" by simp
    with kv top show ?thesis by auto
  qed
  from assms(2) have "length files \<noteq> 0" by auto
  then have "getStore conf =
      (case cf_Load conf (fi_EndBlock latestFile) of
         Inl err \<Rightarrow> Inl (LoadingError err)
       | Inr s \<Rightarrow> Inr (s, latestFile))"
    using assms(1) kv by (simp add: getStore_def)
  with mem max show ?thesis by blast
qed


theorem getStore_selects_latest_witness:
  "getStore ex_conf = Inr (ex_store, ex_file90) \<and> \<not> fi_Partial ex_file90 \<and>
   fi_EndBlock ex_file80 \<le> fi_EndBlock ex_file90"
proof -
  have l: "cf_ListSnapshotFiles ex_conf = Inr [ex_file100, ex_file90, ex_file80]"
    by (simp add: ex_conf_def)
  have n: "\<exists>f \<in> set [ex_file100, ex_file90, ex_file80]. \<not> fi_Partial f"
    by (simp add: ex_file90_def)
  from getStore_selects_latest [OF l n] obtain latestFile where
    mem: "latestFile \<in> set [ex_file100, ex_file90, ex_file80]"
    and complete: "\<not> fi_Partial latestFile"
    and max: "\<forall>f \<in> set [ex_file100, ex_file90, ex_file80].
        \<not> fi_Partial f \<longrightarrow> fi_EndBlock f \<le> fi_EndBlock latestFile"
    and res: "getStore ex_conf =
        (case cf_Load ex_conf (fi_EndBlock latestFile) of
           Inl err \<Rightarrow> Inl (LoadingError err)
         | Inr s \<Rightarrow> Inr (s, latestFile))"
    by blast
  from mem complete have "latestFile = ex_file90 \<or> latestFile = ex_file80"
    by (auto simp: ex_file100_def)
  moreover from max have "fi_EndBlock ex_file90 \<le> fi_EndBlock latestFile"
    by (simp add: ex_file90_def)
  ultimately have "latestFile = ex_file90"
    by (auto simp: ex_file90_def ex_file80_def)
  with res show ?thesis
    by (simp add: ex_conf_def ex_file90_def ex_file80_def)
qed

section \<open>Stores without a complete snapshot\<close>

lemma getStore_no_files:
  "cf_ListSnapshotFiles conf = Inr [] \<Longrightarrow> getStore conf = Inl EmptyStoreError"
  by (simp add: getStore_def)

lemma storeStatsTask_no_files:
  "cf_ListSnapshotFiles conf = Inr [] \<Longrightarrow> storeStatsTask conf = Sent (initializeStoreStats conf)"
  by (simp add: storeStatsTask_def getStore_no_files)

lemma getStore_only_partial:
  assumes "cf_ListSnapshotFiles conf = Inr files" and "files \<noteq> []"
    and "list_all fi_Partial files"
  shows "getStore conf = Inl PanicIndexOutOfRange"
proof -
  from assms(3) have "filter (\<lambda>file. \<not> fi_Partial file) files = []"
    by (simp add: list_all_iff)
  with assms(1,2) show ?thesis
    by (simp add: getStore_def sort_Slice_def)
qed

text \<open>
  C3. A store whose listing holds one file, flagged partial, has no complete snapshot.
  \<open>getStore\<close> passes the emptiness test, filters the file out and reads the first element
  of an empty slice: the task panics instead of sending the record with the identity
  fields.
\<close>

theorem storeStatsTask_only_partial_crashes:
  "getStore (ex_conf\<lparr>cf_ListSnapshotFiles := Inr [ex_file100]\<rparr>) = Inl PanicIndexOutOfRange \<and>
   storeStatsTask (ex_conf\<lparr>cf_ListSnapshotFiles := Inr [ex_file100]\<rparr>) = Crashed \<and>
   storeStatsTask (ex_conf\<lparr>cf_ListSnapshotFiles := Inr []\<rparr>) =
     Sent (initializeStoreStats ex_conf)"
proof -
  have "getStore (ex_conf\<lparr>cf_ListSnapshotFiles := Inr [ex_file100]\<rparr>) = Inl PanicIndexOutOfRange"
    by (rule getStore_only_partial [where files = "[ex_file100]"])
       (simp_all add: ex_file100_def)
  moreover have "storeStatsTask (ex_conf\<lparr>cf_ListSnapshotFiles := Inr []\<rparr>) =
      Sent (initializeStoreStats ex_conf)"
    by (simp add: storeStatsTask_no_files initializeStoreStats_def)
  ultimately show ?thesis by (simp add: storeStatsTask_def)
qed


section \<open>Statistics of an empty store\<close>

lemma Iter_visit:
  "\<exists>st'. Iter visit stateStore st = Inr st' \<and>
     it_KeysCount st' = it_KeysCount st + of_nat (length stateStore) \<and>
     it_keyLens st' = it_keyLens st @ map (\<lambda>(key, val). real (length key)) stateStore \<and>
     it_valueLens st' = it_valueLens st @ map (\<lambda>(key, val). real (length val)) stateStore"
proof (induction stateStore arbitrary: st)
  case Nil
  then show ?case by simp
next
  case (Cons entry rest)
  obtain key val where entry: "entry = (key, val)" by (cases entry)
  obtain st1 where v: "visit key val st = Inr st1"
    and c: "it_KeysCount st1 = it_KeysCount st + 1"
    and k: "it_keyLens st1 = it_keyLens st @ [real (length key)]"
    and l: "it_valueLens st1 = it_valueLens st @ [real (length val)]"
    by (simp add: visit_def Let_def)
  from Cons.IH [of st1] obtain st' where
    "Iter visit rest st1 = Inr st'"
    "it_KeysCount st' = it_KeysCount st1 + of_nat (length rest)"
    "it_keyLens st' = it_keyLens st1 @ map (\<lambda>(key, val). real (length key)) rest"
    "it_valueLens st' = it_valueLens st1 @ map (\<lambda>(key, val). real (length val)) rest"
    by blast
  with entry v c k l show ?case by simp
qed

text \<open>
  C10. Called on a record whose counter is zero, as \<open>initializeStoreStats\<close> makes it,
  \<open>calculateStoreStats\<close> on a store with no entries returns the record with both
  sub-records absent. On any store it returns a record; the two sub-records are present
  or absent together, and when they are present the store has at least one entry and the
  standard deviations in them are \<open>stdDev\<close> of the key lengths and of the value lengths of
  the entries, so \<open>stdDev\<close> divides by a positive number of entries.
\<close>

theorem calculateStoreStats_empty:
  assumes "s_KeysCount stats = 0"
  shows "calculateStoreStats [] stats = Inr (stats\<lparr>s_KeyStats := None, s_ValueStats := None\<rparr>) \<and>
    (\<exists>stats'. calculateStoreStats stateStore stats = Inr stats' \<and>
       (s_KeyStats stats' = None \<longleftrightarrow> s_ValueStats stats' = None) \<and>
       (s_KeyStats stats' \<noteq> None \<longrightarrow>
          0 < length stateStore \<and>
          (\<exists>ks vs. s_KeyStats stats' = Some ks \<and> s_ValueStats stats' = Some vs \<and>
             k_StdDevSize ks =
               stdDev (map (\<lambda>(key, val). real (length key)) stateStore) (k_AverageSize ks) \<and>
             v_StdDevSize vs =
               stdDev (map (\<lambda>(key, val). real (length val)) stateStore) (v_AverageSize vs))))"
proof
  show "calculateStoreStats [] stats = Inr (stats\<lparr>s_KeyStats := None, s_ValueStats := None\<rparr>)"
    using assms by (simp add: calculateStoreStats_def)
next
  let ?st0 = "\<lparr>it_KeysCount = s_KeysCount stats,
      it_KeyStats = \<lparr>k_TotalSize = 0, k_LargestSize = 0, k_AverageSize = 0,
        k_StdDevSize = 0, k_Largest = []\<rparr>,
      it_ValueStats = \<lparr>v_TotalSize = 0, v_LargestSize = 0, v_AverageSize = 0,
        v_StdDevSize = 0, v_Largest = []\<rparr>,
      it_keyLens = [], it_valueLens = []\<rparr>"
  from Iter_visit [of stateStore ?st0] assms obtain st where
    it: "Iter visit stateStore ?st0 = Inr st"
    and c: "it_KeysCount st = of_nat (length stateStore)"
    and k: "it_keyLens st = map (\<lambda>(key, val). real (length key)) stateStore"
    and l: "it_valueLens st = map (\<lambda>(key, val). real (length val)) stateStore"
    by auto
  show "\<exists>stats'. calculateStoreStats stateStore stats = Inr stats' \<and>
       (s_KeyStats stats' = None \<longleftrightarrow> s_ValueStats stats' = None) \<and>
       (s_KeyStats stats' \<noteq> None \<longrightarrow>
          0 < length stateStore \<and>
          (\<exists>ks vs. s_KeyStats stats' = Some ks \<and> s_ValueStats stats' = Some vs \<and>
             k_StdDevSize ks =
               stdDev (map (\<lambda>(key, val). real (length key)) stateStore) (k_AverageSize ks) \<and>
             v_StdDevSize vs =
               stdDev (map (\<lambda>(key, val). real (length val)) stateStore) (v_AverageSize vs)))"
  proof (cases "it_KeysCount st > 0")
    case True
    with c have "stateStore \<noteq> []" by auto
    with True it k l show ?thesis
      by (simp add: calculateStoreStats_def Let_def)
  next
    case False
    with it show ?thesis
      by (simp add: calculateStoreStats_def Let_def)
  qed
qed

theorem calculateStoreStats_empty_witness:
  "calculateStoreStats [] (initializeStoreStats ex_conf) = Inr (initializeStoreStats ex_conf) \<and>
   (\<exists>stats'. calculateStoreStats ex_store (initializeStoreStats ex_conf) = Inr stats' \<and>
      s_KeysCount stats' = 3 \<and> s_KeyStats stats' \<noteq> None \<and> s_ValueStats stats' \<noteq> None)"
proof -
  have z: "s_KeysCount (initializeStoreStats ex_conf) = 0"
    by (simp add: initializeStoreStats_def)
  have "\<exists>stats'. calculateStoreStats ex_store (initializeStoreStats ex_conf) = Inr stats' \<and>
      s_KeysCount stats' = 3 \<and> s_KeyStats stats' \<noteq> None \<and> s_ValueStats stats' \<noteq> None"
    by (simp add: calculateStoreStats_def ex_store_def visit_def Let_def initializeStoreStats_def)
  with calculateStoreStats_empty [OF z, of ex_store] show ?thesis
    by (simp add: initializeStoreStats_def)
qed


section \<open>Order of the collected statistics\<close>

lemma sortedModulesIndex_snoc:
  "sortedModulesIndex (names @ [name]) = (sortedModulesIndex names)(name \<mapsto> length names)"
  by (simp add: sortedModulesIndex_def enumerate_append_eq)

lemma sortedModulesIndex_position:
  "name \<in> set names \<Longrightarrow>
   \<exists>i. sortedModulesIndex names name = Some i \<and> i < length names \<and> names ! i = name"
proof (induction names rule: rev_induct)
  case Nil
  then show ?case by simp
next
  case (snoc x xs)
  show ?case
  proof (cases "name = x")
    case True
    then show ?thesis by (simp add: sortedModulesIndex_snoc)
  next
    case False
    with snoc.prems have "name \<in> set xs" by simp
    from snoc.IH [OF this] obtain i where
      "sortedModulesIndex xs name = Some i" "i < length xs" "xs ! i = name" by blast
    with False show ?thesis
      by (auto simp: sortedModulesIndex_snoc nth_append)
  qed
qed

lemma index_of_inj:
  assumes "a \<in> set names" and "b \<in> set names"
    and "index_of (sortedModulesIndex names) a = index_of (sortedModulesIndex names) b"
  shows "a = b"
proof -
  from sortedModulesIndex_position [OF assms(1)] obtain i where
    i: "sortedModulesIndex names a = Some i" "names ! i = a" by blast
  from sortedModulesIndex_position [OF assms(2)] obtain j where
    j: "sortedModulesIndex names b = Some j" "names ! j = b" by blast
  from assms(3) i(1) j(1) have "i = j" by (simp add: index_of_def)
  with i(2) j(2) show ?thesis by simp
qed

lemma sorted_wrt_distinct:
  "sorted_wrt P xs \<Longrightarrow> distinct xs \<Longrightarrow> sorted_wrt (\<lambda>a b. P a b \<and> a \<noteq> b) xs"
  by (induction xs) auto

lemma strictly_descending_unique:
  fixes key :: "'a \<Rightarrow> nat"
  assumes "mset xs = mset ys"
    and "inj_on key (set xs)"
    and "distinct xs"
    and "sorted_wrt (\<lambda>a b. key a \<ge> key b) xs"
    and "sorted_wrt (\<lambda>a b. key a \<ge> key b) ys"
  shows "xs = ys"
proof -
  from assms(1) have set_eq: "set xs = set ys" by (rule mset_eq_setD)
  from assms(1,3) have dy: "distinct ys" by (metis mset_eq_imp_distinct_iff)
  have sx: "sorted (map key (rev xs))" and sy: "sorted (map key (rev ys))"
    using assms(4,5) by (simp_all add: sorted_wrt_map sorted_wrt_rev flip: rev_map)
  have dx: "distinct (map key (rev xs))" and dy': "distinct (map key (rev ys))"
    using assms(2,3) dy set_eq by (simp_all add: distinct_map)
  have "set (map key (rev xs)) = set (map key (rev ys))"
    using set_eq by simp
  with sx dx sy dy' have "map key (rev xs) = map key (rev ys)"
    by (rule sorted_distinct_set_unique)
  moreover have "inj_on key (set (rev xs) \<union> set (rev ys))"
    using assms(2) set_eq by simp
  ultimately have "rev xs = rev ys"
    by (simp add: inj_on_map_eq_map)
  then show ?thesis by simp
qed

text \<open>
  C8. The collected records are returned in the order of their modules' positions in the
  topological sort, from the greatest position to the smallest, and the result is a
  rearrangement of the records collected. When the records carry distinct module names
  that all occur in the topological sort, the result is the same for every order in
  which the records arrived.
\<close>

theorem sortStats_deterministic:
  assumes "mset stats' = mset stats"
    and "distinct (map s_Name stats)"
    and "set (map s_Name stats) \<subseteq> set sortedModules"
  shows "sortStats sortedModules stats' = sortStats sortedModules stats \<and>
    mset (sortStats sortedModules stats) = mset stats \<and>
    sorted_wrt (\<lambda>a b. index_of (sortedModulesIndex sortedModules) (s_Name a) >
                       index_of (sortedModulesIndex sortedModules) (s_Name b))
      (sortStats sortedModules stats)"
proof -
  let ?key = "\<lambda>a. index_of (sortedModulesIndex sortedModules) (s_Name a)"
  let ?lt = "\<lambda>a b. ?key a > ?key b"
  have sorted: "sorted_wrt (\<lambda>a b. ?key a \<ge> ?key b) (sort_Slice ?lt xs)" for xs
    by (rule sorted_sort_Slice) auto
  have d: "distinct stats" and names_inj: "inj_on s_Name (set stats)"
    using assms(2) by (simp_all add: distinct_map)
  have inj: "inj_on ?key (set stats)"
  proof (rule inj_onI)
    fix a b assume ab: "a \<in> set stats" "b \<in> set stats" "?key a = ?key b"
    with assms(3) have "s_Name a \<in> set sortedModules" "s_Name b \<in> set sortedModules"
      by auto
    then have "s_Name a = s_Name b" using ab(3) by (rule index_of_inj)
    with names_inj ab show "a = b" by (simp add: inj_on_def)
  qed
  let ?r = "sort_Slice ?lt stats" and ?r' = "sort_Slice ?lt stats'"
  have m: "mset ?r = mset stats" "mset ?r' = mset stats"
    using assms(1) by (simp_all add: mset_sort_Slice)
  then have sets: "set ?r = set stats" "set ?r' = set stats"
    by (metis set_mset_mset)+
  from m d have dr: "distinct ?r" by (metis mset_eq_imp_distinct_iff)
  have "?r' = ?r"
  proof (rule strictly_descending_unique [symmetric])
    show "mset ?r = mset ?r'" using m by simp
    show "inj_on ?key (set ?r)" using inj sets by simp
    show "distinct ?r" by (rule dr)
    show "sorted_wrt (\<lambda>a b. ?key a \<ge> ?key b) ?r" by (rule sorted)
    show "sorted_wrt (\<lambda>a b. ?key a \<ge> ?key b) ?r'" by (rule sorted)
  qed
  moreover have "sorted_wrt ?lt ?r"
  proof -
    have "sorted_wrt (\<lambda>a b. ?key a \<ge> ?key b \<and> a \<noteq> b) ?r"
      using sorted [of stats] dr by (rule sorted_wrt_distinct)
    moreover have "?key a > ?key b"
      if "a \<in> set ?r" "b \<in> set ?r" "?key a \<ge> ?key b \<and> a \<noteq> b" for a b
      using that inj sets by (auto simp: inj_on_def order_less_le)
    ultimately show ?thesis
      by (rule sorted_wrt_mono_rel [rotated])
  qed
  ultimately show ?thesis
    using m(1) by (simp add: sortStats_def Let_def)
qed


theorem sortStats_deterministic_witness:
  "sortStats [''totals'', ''prices'', ''pairs'']
     [initializeStoreStats ex_conf, initializeStoreStats (ex_conf\<lparr>cf_Name := ''prices''\<rparr>)] =
     [initializeStoreStats (ex_conf\<lparr>cf_Name := ''prices''\<rparr>), initializeStoreStats ex_conf] \<and>
   sortStats [''totals'', ''prices'', ''pairs'']
     [initializeStoreStats (ex_conf\<lparr>cf_Name := ''prices''\<rparr>), initializeStoreStats ex_conf] =
     [initializeStoreStats (ex_conf\<lparr>cf_Name := ''prices''\<rparr>), initializeStoreStats ex_conf]"
proof -
  let ?t = "initializeStoreStats ex_conf"
  let ?p = "initializeStoreStats (ex_conf\<lparr>cf_Name := ''prices''\<rparr>)"
  let ?names = "[''totals'', ''prices'', ''pairs'']"
  have names: "s_Name ?t = ''totals''" "s_Name ?p = ''prices''"
    by (simp_all add: initializeStoreStats_def ex_conf_def)
  have index: "index_of (sortedModulesIndex ?names) ''totals'' = 0"
    "index_of (sortedModulesIndex ?names) ''prices'' = 1"
    by (simp_all add: sortedModulesIndex_def index_of_def)
  have 1: "sortStats ?names [?p, ?t] = [?p, ?t]"
    by (simp add: sortStats_def Let_def sort_Slice_def names index)
  have "mset [?t, ?p] = mset [?p, ?t]" by simp
  moreover have "distinct (map s_Name [?p, ?t])" by (simp add: names)
  moreover have "set (map s_Name [?p, ?t]) \<subseteq> set ?names" by (simp add: names)
  ultimately have "sortStats ?names [?t, ?p] = sortStats ?names [?p, ?t]"
    using sortStats_deterministic [of "[?t, ?p]" "[?p, ?t]" ?names] by blast
  with 1 show ?thesis by simp
qed


section \<open>SHA-1 on the test vector "abc"\<close>

text \<open>
  The digest of the three bytes "abc" is the first example of the standard,
  \<open>a9993e36 4706816a ba3e2571 7850c26c 9cd0d89d\<close>. It is computed here stage by stage:
  the padded block, its sixteen words, the message schedule, the eighty rounds and the
  digest.
\<close>

lemma zero_padding_step:
  "replicate (numeral k) (0 :: byte) = 0 # replicate (pred_numeral k) 0"
  by (simp add: numeral_eq_Suc)

lemma sha1_schedule_numeral:
  "sha1_schedule (numeral k) w =
     sha1_schedule (pred_numeral k)
       (w @ [rotl 1 (w ! (length w - 3) XOR w ! (length w - 8) XOR
                     w ! (length w - 14) XOR w ! (length w - 16))])"
  by (simp add: numeral_eq_Suc)

lemma sha1_abc_pad:
  "sha1_pad (bytes_of ''abc'') =
      [97, 98, 99, 128, 0, 0, 0, 0, 0, 0, 0, 0, 0, 0, 0, 0, 0, 0, 0, 0, 0, 0, 0, 0, 0,
      0, 0, 0, 0, 0, 0, 0, 0, 0, 0, 0, 0, 0, 0, 0, 0, 0, 0, 0, 0, 0, 0, 0, 0, 0, 0, 0,
      0, 0, 0, 0, 0, 0, 0, 0, 0, 0, 0, 24]"
  by (simp add: sha1_pad_def bytes_of_def bytes_be64_def zero_padding_step)

lemma sha1_abc_blocks:
  "sha1_blocks
      [97, 98, 99, 128, 0, 0, 0, 0, 0, 0, 0, 0, 0, 0, 0, 0, 0, 0, 0, 0, 0, 0, 0, 0, 0,
      0, 0, 0, 0, 0, 0, 0, 0, 0, 0, 0, 0, 0, 0, 0, 0, 0, 0, 0, 0, 0, 0, 0, 0, 0, 0, 0,
      0, 0, 0, 0, 0, 0, 0, 0, 0, 0, 0, 24] =
     [[97, 98, 99, 128, 0, 0, 0, 0, 0, 0, 0, 0, 0, 0, 0, 0, 0, 0, 0, 0, 0, 0, 0, 0, 0,
       0, 0, 0, 0, 0, 0, 0, 0, 0, 0, 0, 0, 0, 0, 0, 0, 0, 0, 0, 0, 0, 0, 0, 0, 0, 0, 0,
       0, 0, 0, 0, 0, 0, 0, 0, 0, 0, 0, 24]]"
  by (simp add: sha1_blocks_def upt_rec)

lemma sha1_abc_words:
  "map (\<lambda>i. be32 (take 4 (drop (4 * i)
      [97, 98, 99, 128, 0, 0, 0, 0, 0, 0, 0, 0, 0, 0, 0, 0, 0, 0, 0, 0, 0, 0, 0, 0, 0,
      0, 0, 0, 0, 0, 0, 0, 0, 0, 0, 0, 0, 0, 0, 0, 0, 0, 0, 0, 0, 0, 0, 0, 0, 0, 0, 0,
      0, 0, 0, 0, 0, 0, 0, 0, 0, 0, 0, 24]))) [0..<16] =
      [1633837952, 0, 0, 0, 0, 0, 0, 0, 0, 0, 0, 0, 0, 0, 0, 24]"
  by (simp add: be32_def upt_rec)

lemma sha1_abc_schedule:
  "sha1_schedule 64
      [1633837952, 0, 0, 0, 0, 0, 0, 0, 0, 0, 0, 0, 0, 0, 0, 24] =
      [1633837952, 0, 0, 0, 0, 0, 0, 0, 0, 0, 0, 0, 0, 0, 0, 24, 3267675904, 0, 48,
      2240384513, 0, 96, 185801731, 48, 2240384705, 371603462, 0, 384, 743206924, 240,
      2477765895, 1486413896, 2392494594, 1536, 2972827888, 371604422, 1321128990,
      1650688161, 371603462, 6336, 3537975492, 3840, 989548665, 2307785957, 3803855915,
      24768, 87701453, 1950713159, 3667138029, 641206806, 1650688929, 1321161950,
      943043659, 62976, 512018339, 2564836760, 1696405152, 1650822305, 1166361814,
      1146637495, 2074109465, 1669377698, 182801001, 1652246945, 2094292125, 983040,
      4216354106, 3966199272, 3124505570, 6340608, 976735493, 1166362356, 3092880854,
      940186150, 31465987, 3888919638, 3873835881, 16124416, 1469443919, 2184054905]"
  by (simp add: sha1_schedule_numeral rotl_def)

lemma sha1_abc_rounds:
  "foldl (sha1_round
      [1633837952, 0, 0, 0, 0, 0, 0, 0, 0, 0, 0, 0, 0, 0, 0, 24, 3267675904, 0, 48,
      2240384513, 0, 96, 185801731, 48, 2240384705, 371603462, 0, 384, 743206924, 240,
      2477765895, 1486413896, 2392494594, 1536, 2972827888, 371604422, 1321128990,
      1650688161, 371603462, 6336, 3537975492, 3840, 989548665, 2307785957, 3803855915,
      24768, 87701453, 1950713159, 3667138029, 641206806, 1650688929, 1321161950,
      943043659, 62976, 512018339, 2564836760, 1696405152, 1650822305, 1166361814,
      1146637495, 2074109465, 1669377698, 182801001, 1652246945, 2094292125, 983040,
      4216354106, 3966199272, 3124505570, 6340608, 976735493, 1166362356, 3092880854,
      940186150, 31465987, 3888919638, 3873835881, 16124416, 1469443919, 2184054905]) sha1_init [0..<80] =
     (1112808245, 1463342561, 562251891, 1746824694, 3640522413)"
  by (simp add: sha1_round_def sha1_init_def rotl_def upt_rec)

lemma sha1_abc_compress:
  "sha1_compress sha1_init
      [97, 98, 99, 128, 0, 0, 0, 0, 0, 0, 0, 0, 0, 0, 0, 0, 0, 0, 0, 0, 0, 0, 0, 0, 0,
      0, 0, 0, 0, 0, 0, 0, 0, 0, 0, 0, 0, 0, 0, 0, 0, 0, 0, 0, 0, 0, 0, 0, 0, 0, 0, 0,
      0, 0, 0, 0, 0, 0, 0, 0, 0, 0, 0, 24] =
     (2845392438, 1191608682, 3124634993, 2018558572, 2630932637)"
proof -
  have "sha1_compress sha1_init
      [97, 98, 99, 128, 0, 0, 0, 0, 0, 0, 0, 0, 0, 0, 0, 0, 0, 0, 0, 0, 0, 0, 0, 0, 0,
      0, 0, 0, 0, 0, 0, 0, 0, 0, 0, 0, 0, 0, 0, 0, 0, 0, 0, 0, 0, 0, 0, 0, 0, 0, 0, 0,
      0, 0, 0, 0, 0, 0, 0, 0, 0, 0, 0, 24] =
     (case (sha1_init, (1112808245, 1463342561, 562251891, 1746824694, 3640522413)) of
        ((h0, h1, h2, h3, h4), (a, b, c, d, e)) \<Rightarrow> (h0 + a, h1 + b, h2 + c, h3 + d, h4 + e))"
    by (simp only: sha1_compress_def Let_def sha1_abc_words sha1_abc_schedule sha1_abc_rounds)
  then show ?thesis
    by (simp add: sha1_init_def)
qed

lemma sha1_abc:
  "sha1 (bytes_of ''abc'') =
      [0xa9, 0x99, 0x3e, 0x36, 0x47, 0x06, 0x81, 0x6a, 0xba, 0x3e, 0x25, 0x71, 0x78,
      0x50, 0xc2, 0x6c, 0x9c, 0xd0, 0xd8, 0x9d]"
  by (simp add: sha1_def sha1_abc_pad sha1_abc_blocks sha1_abc_compress sha1_digest_def
      bytes_be32_def)

section \<open>The signature of a module\<close>

lemma length_sha1: "length (sha1 msg) = 20"
proof -
  obtain h0 h1 h2 h3 h4 where
    "foldl sha1_compress sha1_init (sha1_blocks (sha1_pad msg)) = (h0, h1, h2, h3, h4)"
    by (metis prod_cases5)
  then show ?thesis
    by (simp add: sha1_def sha1_digest_def bytes_be32_def)
qed

lemma sorted_input_names:
  "map i_Name (sort_Slice (\<lambda>a b. i_Name a < i_Name b) inputs) = sort (map i_Name inputs)"
proof (rule properties_for_sort [symmetric])
  show "mset (map i_Name (sort_Slice (\<lambda>a b. i_Name a < i_Name b) inputs)) =
      mset (map i_Name inputs)"
    by (simp add: mset_sort_Slice)
  have "sorted_wrt (\<lambda>a b. i_Name a \<le> i_Name b)
      (sort_Slice (\<lambda>a b. i_Name a < i_Name b) inputs)"
    by (rule sorted_sort_Slice) auto
  then show "sorted (map i_Name (sort_Slice (\<lambda>a b. i_Name a < i_Name b) inputs))"
    by (simp add: sorted_wrt_map)
qed

lemma Signature_Suc:
  "Signature (Suc depth) m graph =
    (case those (map (\<lambda>ancestor. Signature depth ancestor graph) (ancestors_of graph m)) of
       None \<Rightarrow> None
     | Some sigs \<Rightarrow> Some (sha1 (signature_input m sigs)))"
proof -
  have "concat (map (\<lambda>input. bytes_of (i_Name input))
          (sort_Slice (\<lambda>a b. i_Name a < i_Name b) (m_Inputs m))) =
        concat (map bytes_of (sort (map i_Name (m_Inputs m))))"
    by (simp flip: sorted_input_names add: comp_def)
  then show ?thesis
    by (simp add: signature_input_def Let_def split: option.splits)
qed

declare Signature.simps(2) [simp del]

lemma those_eq_Some: "those xs = Some ys \<longleftrightarrow> xs = map Some ys"
proof (induction xs arbitrary: ys)
  case Nil
  then show ?case by auto
next
  case (Cons x xs)
  show ?case
  proof (cases x)
    case None
    then show ?thesis by auto
  next
    case (Some z)
    then have "those (x # xs) = Some ys \<longleftrightarrow> (\<exists>zs. those xs = Some zs \<and> ys = z # zs)"
      by (cases "those xs") auto
    also have "\<dots> \<longleftrightarrow> (\<exists>zs. xs = map Some zs \<and> ys = z # zs)"
      by (simp add: Cons.IH)
    also have "\<dots> \<longleftrightarrow> x # xs = map Some ys"
      using Some by (cases ys) auto
    finally show ?thesis .
  qed
qed

lemma Signature_mono:
  "Signature depth m graph = Some sig \<Longrightarrow> depth \<le> depth' \<Longrightarrow>
   Signature depth' m graph = Some sig"
proof (induction depth arbitrary: depth' m sig)
  case 0
  then show ?case by simp
next
  case (Suc depth)
  from Suc.prems(2) obtain k where k: "depth' = Suc k" "depth \<le> k"
    by (cases depth') auto
  from Suc.prems(1) obtain sigs where
    sigs: "map (\<lambda>ancestor. Signature depth ancestor graph) (ancestors_of graph m) = map Some sigs"
    and sig: "sig = sha1 (signature_input m sigs)"
    by (auto simp: Signature_Suc those_eq_Some split: option.splits)
  have "map (\<lambda>ancestor. Signature k ancestor graph) (ancestors_of graph m) = map Some sigs"
  proof (rule nth_equalityI)
    show "length (map (\<lambda>ancestor. Signature k ancestor graph) (ancestors_of graph m)) =
        length (map Some sigs)"
      using sigs by (metis length_map)
  next
    fix i assume "i < length (map (\<lambda>ancestor. Signature k ancestor graph) (ancestors_of graph m))"
    then have i: "i < length (ancestors_of graph m)" by simp
    with sigs have "Signature depth (ancestors_of graph m ! i) graph = Some (sigs ! i)"
      by (metis length_map nth_map)
    then have "Signature k (ancestors_of graph m ! i) graph = Some (sigs ! i)"
      using k(2) by (rule Suc.IH)
    moreover from sigs have "length sigs = length (ancestors_of graph m)"
      by (metis length_map)
    ultimately show "map (\<lambda>ancestor. Signature k ancestor graph) (ancestors_of graph m) ! i =
        map Some sigs ! i"
      using i by simp
  qed
  then have "those (map (\<lambda>ancestor. Signature k ancestor graph) (ancestors_of graph m)) =
      Some sigs"
    by (simp only: those_eq_Some)
  then show ?case
    by (simp add: k(1) sig Signature_Suc)
qed

lemma Signature_returns:
  assumes "\<forall>name ancestors a.
      g_AncestorsOf graph name = Inr ancestors \<longrightarrow> a \<in> set ancestors \<longrightarrow>
      rank (m_Name a) < rank name"
  shows "rank (m_Name m) < depth \<Longrightarrow> \<exists>sig. Signature depth m graph = Some sig"
proof (induction depth arbitrary: m)
  case 0
  then show ?case by simp
next
  case (Suc depth)
  have "\<exists>sig. Signature depth a graph = Some sig" if "a \<in> set (ancestors_of graph m)" for a
  proof -
    from that obtain ancestors where
      "g_AncestorsOf graph (m_Name m) = Inr ancestors" "a \<in> set ancestors"
      by (cases "g_AncestorsOf graph (m_Name m)") (auto simp: ancestors_of_def)
    with assms have "rank (m_Name a) < rank (m_Name m)" by blast
    with Suc.prems have "rank (m_Name a) < depth" by simp
    then show ?thesis by (rule Suc.IH)
  qed
  then have "map (\<lambda>ancestor. Signature depth ancestor graph) (ancestors_of graph m) =
      map Some (map (\<lambda>ancestor. the (Signature depth ancestor graph)) (ancestors_of graph m))"
    unfolding map_map by (intro map_cong [OF refl]) auto
  then have "those (map (\<lambda>ancestor. Signature depth ancestor graph) (ancestors_of graph m)) =
      Some (map (\<lambda>ancestor. the (Signature depth ancestor graph)) (ancestors_of graph m))"
    by (simp only: those_eq_Some)
  then show ?case
    by (simp add: Signature_Suc)
qed


text \<open>
  C1. On a graph without cycles (every ancestor that \<open>AncestorsOf\<close> returns for a name
  has a smaller rank than the name) \<open>Signature\<close> returns once the depth allowed exceeds
  the rank of the module. What it returns is the SHA-1 digest, twenty bytes long, of the
  kind, the code bytes, the entrypoint, the names of the inputs in lexicographic order,
  and, for each ancestor returned by \<open>AncestorsOf\<close>, in that order, the signature that
  \<open>Signature\<close> returns for that ancestor.
\<close>

theorem Signature_sha1_of_concatenation:
  assumes "\<forall>name ancestors a.
      g_AncestorsOf graph name = Inr ancestors \<longrightarrow> a \<in> set ancestors \<longrightarrow>
      rank (m_Name a) < rank name"
    and "rank (m_Name m) < depth"
  shows "\<exists>sigs.
      map (\<lambda>ancestor. Signature depth ancestor graph) (ancestors_of graph m) = map Some sigs \<and>
      Signature depth m graph = Some (sha1 (signature_input m sigs)) \<and>
      length (sha1 (signature_input m sigs)) = 20"
proof -
  from assms(2) obtain k where k: "depth = Suc k" by (cases depth) auto
  from Signature_returns [OF assms] obtain sig where sig: "Signature depth m graph = Some sig"
    by blast
  then obtain sigs where
    sigs: "map (\<lambda>ancestor. Signature k ancestor graph) (ancestors_of graph m) = map Some sigs"
    and eq: "sig = sha1 (signature_input m sigs)"
    by (auto simp: k Signature_Suc those_eq_Some split: option.splits)
  have "map (\<lambda>ancestor. Signature depth ancestor graph) (ancestors_of graph m) = map Some sigs"
  proof (rule nth_equalityI)
    show "length (map (\<lambda>ancestor. Signature depth ancestor graph) (ancestors_of graph m)) =
        length (map Some sigs)"
      using sigs by (metis length_map)
  next
    fix i
    assume "i < length (map (\<lambda>ancestor. Signature depth ancestor graph) (ancestors_of graph m))"
    then have i: "i < length (ancestors_of graph m)" by simp
    with sigs have "Signature k (ancestors_of graph m ! i) graph = Some (sigs ! i)"
      by (metis length_map nth_map)
    then have "Signature depth (ancestors_of graph m ! i) graph = Some (sigs ! i)"
      by (rule Signature_mono) (simp add: k)
    moreover from sigs have "length sigs = length (ancestors_of graph m)"
      by (metis length_map)
    ultimately show "map (\<lambda>ancestor. Signature depth ancestor graph) (ancestors_of graph m) ! i =
        map Some sigs ! i"
      using i by simp
  qed
  with sig eq show ?thesis
    by (auto simp: length_sha1)
qed

lemma ex_graph_acyclic:
  "\<forall>name ancestors a.
      g_AncestorsOf ex_graph name = Inr ancestors \<longrightarrow> a \<in> set ancestors \<longrightarrow>
      ex_rank (m_Name a) < ex_rank name"
  by (auto simp: ex_graph_def ex_rank_def ex_pairs_def ex_prices_def split: if_splits)

lemma ex_ancestors:
  "ancestors_of ex_graph ex_module = [ex_pairs, ex_prices]"
  "ancestors_of ex_graph ex_prices = [ex_pairs]"
  "ancestors_of ex_graph ex_pairs = []"
  by (simp_all add: ancestors_of_def ex_graph_def ex_module_def ex_prices_def ex_pairs_def)

theorem Signature_sha1_of_concatenation_witness:
  "\<exists>pairs prices.
     Signature 3 ex_pairs ex_graph = Some pairs \<and>
     Signature 3 ex_prices ex_graph = Some prices \<and>
     pairs = sha1 (signature_input ex_pairs []) \<and>
     prices = sha1 (signature_input ex_prices [pairs]) \<and>
     Signature 3 ex_module ex_graph = Some (sha1 (signature_input ex_module [pairs, prices])) \<and>
     length pairs = 20"
proof -
  have r: "ex_rank (m_Name ex_pairs) < 3" "ex_rank (m_Name ex_prices) < 3"
    "ex_rank (m_Name ex_module) < 3"
    by (simp_all add: ex_rank_def)
  from Signature_sha1_of_concatenation [OF ex_graph_acyclic r(1)]
  have 1: "Signature 3 ex_pairs ex_graph = Some (sha1 (signature_input ex_pairs []))"
    by (simp add: ex_ancestors)
  from Signature_sha1_of_concatenation [OF ex_graph_acyclic r(2)] 1
  have 2: "Signature 3 ex_prices ex_graph =
      Some (sha1 (signature_input ex_prices [sha1 (signature_input ex_pairs [])]))"
    by (auto simp: ex_ancestors)
  from Signature_sha1_of_concatenation [OF ex_graph_acyclic r(3)] 1 2
  have 3: "Signature 3 ex_module ex_graph =
      Some (sha1 (signature_input ex_module [sha1 (signature_input ex_pairs []),
        sha1 (signature_input ex_prices [sha1 (signature_input ex_pairs [])])]))"
    by (auto simp: ex_ancestors)
  from 1 2 3 show ?thesis by (simp add: length_sha1)
qed

section \<open>Signatures and the order of the inputs\<close>

lemma signature_input_mset:
  assumes "m_Kind m1 = m_Kind m2"
    and "c_Content (m_Code m1) = c_Content (m_Code m2)"
    and "c_Entrypoint (m_Code m1) = c_Entrypoint (m_Code m2)"
    and "mset (m_Inputs m1) = mset (m_Inputs m2)"
  shows "signature_input m1 sigs = signature_input m2 sigs"
proof -
  from assms(4) have "mset (map i_Name (m_Inputs m1)) = mset (map i_Name (m_Inputs m2))"
    by (metis mset_map)
  then have "sort (map i_Name (m_Inputs m1)) = sort (map i_Name (m_Inputs m2))"
    by (metis properties_for_sort sorted_sort mset_sort)
  with assms(1-3) show ?thesis
    by (simp add: signature_input_def)
qed

text \<open>
  C7. A module whose inputs are listed in another order gets the same signature: for
  every rearrangement of the inputs and every depth allowed, \<open>Signature\<close> returns on the
  rearranged module exactly when it returns on the module, with the same bytes.
\<close>

theorem Signature_inputs_order:
  assumes "mset inputs' = mset (m_Inputs m)"
  shows "Signature depth (m\<lparr>m_Inputs := inputs'\<rparr>) graph = Signature depth m graph"
proof (cases depth)
  case 0
  then show ?thesis by simp
next
  case (Suc k)
  have "signature_input (m\<lparr>m_Inputs := inputs'\<rparr>) sigs = signature_input m sigs" for sigs
    by (rule signature_input_mset) (simp_all add: assms)
  moreover have "ancestors_of graph (m\<lparr>m_Inputs := inputs'\<rparr>) = ancestors_of graph m"
    by (simp add: ancestors_of_def)
  ultimately show ?thesis
    by (simp add: Suc Signature_Suc split: option.splits)
qed

theorem Signature_inputs_order_witness:
  "Signature 3 (ex_module\<lparr>m_Inputs := rev ex_inputs\<rparr>) ex_graph = Signature 3 ex_module ex_graph \<and>
   rev ex_inputs \<noteq> ex_inputs \<and> Signature 3 ex_module ex_graph \<noteq> None"
proof -
  have "mset (rev ex_inputs) = mset (m_Inputs ex_module)"
    by (simp add: ex_module_def)
  then have "Signature 3 (ex_module\<lparr>m_Inputs := rev ex_inputs\<rparr>) ex_graph =
      Signature 3 ex_module ex_graph"
    by (rule Signature_inputs_order)
  moreover have "rev ex_inputs \<noteq> ex_inputs"
    by (simp add: ex_inputs_def)
  moreover have "\<exists>sig. Signature 3 ex_module ex_graph = Some sig"
    by (rule Signature_returns [OF ex_graph_acyclic]) (simp add: ex_rank_def)
  ultimately show ?thesis by auto
qed

section \<open>Signatures of identical modules\<close>

text \<open>
  C2, as far as it holds. Two modules that are identical, each in its graph, get the same
  signature: at every depth allowed \<open>Signature\<close> returns on the one exactly when it
  returns on the other, with the same bytes.
\<close>

theorem identical_same_signature:
  assumes "identical g1 g2 m1 m2"
  shows "Signature depth m1 g1 = Signature depth m2 g2"
  using assms
proof (induction depth arbitrary: m1 m2)
  case 0
  then show ?case by simp
next
  case (Suc depth)
  from Suc.prems have
    fields: "m_Kind m1 = m_Kind m2" "c_Content (m_Code m1) = c_Content (m_Code m2)"
      "c_Entrypoint (m_Code m1) = c_Entrypoint (m_Code m2)"
      "mset (m_Inputs m1) = mset (m_Inputs m2)"
    and anc: "list_all2 (identical g1 g2) (ancestors_of g1 m1) (ancestors_of g2 m2)"
    by (auto elim: identical.cases)
  from anc have "list_all2 (\<lambda>a b. Signature depth a g1 = Signature depth b g2)
      (ancestors_of g1 m1) (ancestors_of g2 m2)"
    by (rule list_all2_mono) (rule Suc.IH)
  then have "map (\<lambda>ancestor. Signature depth ancestor g1) (ancestors_of g1 m1) =
      map (\<lambda>ancestor. Signature depth ancestor g2) (ancestors_of g2 m2)"
    by (simp add: list_all2_conv_all_nth list_eq_iff_nth_eq)
  moreover have "signature_input m1 sigs = signature_input m2 sigs" for sigs
    using fields by (rule signature_input_mset)
  ultimately show ?case
    by (simp add: Signature_Suc split: option.splits)
qed

lemma identical_refl_pairs: "identical ex_graph ex_graph ex_pairs ex_pairs"
  by (rule identical.intros) (simp_all add: ex_ancestors)

theorem identical_same_signature_witness:
  "identical ex_graph ex_graph ex_prices (ex_prices\<lparr>m_UpdatePolicy := ''ignore''\<rparr>) \<and>
   Signature 3 ex_prices ex_graph = Signature 3 (ex_prices\<lparr>m_UpdatePolicy := ''ignore''\<rparr>) ex_graph \<and>
   Signature 3 ex_prices ex_graph \<noteq> None"
proof -
  have a: "ancestors_of ex_graph (ex_prices\<lparr>m_UpdatePolicy := ''ignore''\<rparr>) = [ex_pairs]"
    by (simp add: ancestors_of_def ex_graph_def ex_prices_def)
  have i: "identical ex_graph ex_graph ex_prices (ex_prices\<lparr>m_UpdatePolicy := ''ignore''\<rparr>)"
    by (rule identical.intros) (simp_all add: ex_ancestors a identical_refl_pairs)
  moreover have "\<exists>sig. Signature 3 ex_prices ex_graph = Some sig"
    by (rule Signature_returns [OF ex_graph_acyclic]) (simp add: ex_rank_def)
  ultimately show ?thesis
    using identical_same_signature [OF i, of 3] by auto
qed

text \<open>
  The converse fails. The bytes hashed are a plain concatenation, so moving a byte from
  the end of the code to the front of the entrypoint leaves them as they are: the two
  modules get the same signature although their code and their entrypoint differ.
\<close>

theorem same_signature_not_identical:
  "Signature 1 ex_split_early ex_flat_graph = Signature 1 ex_split_late ex_flat_graph \<and>
   Signature 1 ex_split_early ex_flat_graph \<noteq> None \<and>
   c_Content (m_Code ex_split_early) \<noteq> c_Content (m_Code ex_split_late) \<and>
   \<not> identical ex_flat_graph ex_flat_graph ex_split_early ex_split_late"
proof -
  have a: "ancestors_of ex_flat_graph m = []" for m
    by (simp add: ancestors_of_def ex_flat_graph_def)
  have "signature_input ex_split_early [] = signature_input ex_split_late []"
    by (simp add: signature_input_def ex_split_early_def ex_split_late_def bytes_of_def)
  then have "Signature 1 ex_split_early ex_flat_graph = Signature 1 ex_split_late ex_flat_graph"
    and "Signature 1 ex_split_early ex_flat_graph \<noteq> None"
    by (simp_all add: Signature_Suc a)
  moreover have c: "c_Content (m_Code ex_split_early) \<noteq> c_Content (m_Code ex_split_late)"
    by (simp add: ex_split_early_def ex_split_late_def)
  moreover have "\<not> identical ex_flat_graph ex_flat_graph ex_split_early ex_split_late"
    using c by (auto elim: identical.cases)
  ultimately show ?thesis by simp
qed


end
